theory Spec2Isabelle
  imports Complex_Main
begin

section \<open>GPS speedometer (src/app/page.tsx): numbers and platform functions\<close>

text \<open>
  The component \<^verbatim>\<open>GPSSpeedometer\<close> of \<^verbatim>\<open>src/app/page.tsx\<close> (the first of the two
  versions in the file, the one with the camera) is embedded here. A value that may be
  \<^verbatim>\<open>null\<close> is an \<^typ>\<open>'a option\<close>. A JavaScript \<^verbatim>\<open>number\<close> is modelled twice. In this
  part and in the handlers it is a \<^typ>\<open>real\<close> and the arithmetic is exact: that is the
  formula the code writes down, and it is all that the states, the windows and the
  order of the calls depend on. What the code computes with its doubles, with the
  rounding, the infinities and NaN, is modelled in the section on IEEE doubles; the
  properties of the samples, of the smoothed speed and of \<^verbatim>\<open>maxSpeed\<close> as values
  are stated there.
\<close>

text \<open>
  \<^verbatim>\<open>Math.atan2(y, x)\<close> of ECMAScript, on the reals: the angle of the point (x, y),
  in the interval from \<open>-pi\<close> to \<open>pi\<close>.
\<close>

definition Math_atan2 :: "real \<Rightarrow> real \<Rightarrow> real" where
  "Math_atan2 y x =
     (if 0 < x then arctan (y / x)
      else if x < 0 then (if 0 \<le> y then arctan (y / x) + pi else arctan (y / x) - pi)
      else if 0 < y then pi / 2
      else if y < 0 then - (pi / 2)
      else 0)"

record Position =
  latitude :: real
  longitude :: real
  timestamp :: real

subsection \<open>calculateSpeed (lines 46 to 63)\<close>

definition calculateSpeed :: "Position \<Rightarrow> Position \<Rightarrow> real" where
  "calculateSpeed pos1 pos2 =
     (let R = 6371000;
          phi1 = (latitude pos1 * pi) / 180;
          phi2 = (latitude pos2 * pi) / 180;
          dphi = ((latitude pos2 - latitude pos1) * pi) / 180;
          dlam = ((longitude pos2 - longitude pos1) * pi) / 180;
          a = sin (dphi / 2) * sin (dphi / 2)
              + cos phi1 * cos phi2 * sin (dlam / 2) * sin (dlam / 2);
          c = 2 * Math_atan2 (sqrt a) (sqrt (1 - a));
          distance = R * c;
          timeDiff = (timestamp pos2 - timestamp pos1) / 1000
      in if timeDiff = 0 then 0
         else let speedMps = distance / timeDiff in speedMps * 2.237)"

text \<open>
  The haversine distance in the words of the specification (section 4.1), to be
  compared with what \<^const>\<open>calculateSpeed\<close> computes.
\<close>

definition radians :: "real \<Rightarrow> real" where
  "radians d = d * pi / 180"

definition a_hav :: "Position \<Rightarrow> Position \<Rightarrow> real" where
  "a_hav p q =
     (sin ((radians (latitude q) - radians (latitude p)) / 2))\<^sup>2
     + cos (radians (latitude p)) * cos (radians (latitude q))
       * (sin ((radians (longitude q) - radians (longitude p)) / 2))\<^sup>2"



subsection \<open>smoothSpeed (lines 65 to 82)\<close>

text \<open>
  The \<^verbatim>\<open>forEach\<close> loop of \<^verbatim>\<open>smoothSpeed\<close>, from the index \<open>i\<close> on, with the two
  accumulators \<^verbatim>\<open>weightedSum\<close> and \<^verbatim>\<open>totalWeight\<close>.
\<close>

fun weigh :: "real list \<Rightarrow> nat \<Rightarrow> real \<times> real \<Rightarrow> real \<times> real" where
  "weigh [] i (weightedSum, totalWeight) = (weightedSum, totalWeight)"
| "weigh (x # xs) i (weightedSum, totalWeight) =
     (let weight = real (i + 1)
      in weigh xs (i + 1) (weightedSum + x * weight, totalWeight + weight))"

text \<open>The window after \<^verbatim>\<open>push\<close> and the conditional \<^verbatim>\<open>shift\<close>.\<close>

definition pushShift :: "'a \<Rightarrow> 'a list \<Rightarrow> 'a list" where
  "pushShift newSpeed history =
     (let h = history @ [newSpeed] in if length h > 5 then tl h else h)"

text \<open>
  \<^verbatim>\<open>smoothSpeed\<close> mutates \<^verbatim>\<open>speedHistoryRef.current\<close> and returns a number: the model
  takes the window and returns the number with the new window.
\<close>

definition smoothSpeed :: "real \<Rightarrow> real list \<Rightarrow> real \<times> real list" where
  "smoothSpeed newSpeed history =
     (let h = pushShift newSpeed history;
          (weightedSum, totalWeight) = weigh h 0 (0, 0)
      in (weightedSum / totalWeight, h))"

text \<open>The window after a sequence of calls of \<^verbatim>\<open>smoothSpeed\<close>, oldest call first.\<close>

fun pushes :: "real list \<Rightarrow> real list \<Rightarrow> real list" where
  "pushes [] history = history"
| "pushes (v # vs) history = pushes vs (snd (smoothSpeed v history))"

section \<open>The component state and its handlers\<close>

text \<open>
  What \<^verbatim>\<open>watchPosition\<close> hands to the success handler: the fields of
  \<^verbatim>\<open>position.coords\<close> the handler reads, and \<^verbatim>\<open>position.timestamp\<close>.
\<close>

record GeolocationPosition =
  coords_latitude :: real
  coords_longitude :: real
  coords_accuracy :: real
  coords_heading :: "real option"
  coords_speed :: "real option"
  position_timestamp :: real

text \<open>
  A media stream is known by the identifiers of its tracks; a blob by its size. A
  recorder is known by its index in the list of the recorders created so far.
\<close>

record MediaStream =
  videoTracks :: "nat list"
  audioTracks :: "nat list"

definition getTracks :: "MediaStream \<Rightarrow> nat list" where
  "getTracks stream = videoTracks stream @ audioTracks stream"

type_synonym Blob = nat

datatype unit_t = mph | kmh

text \<open>
  The calls the handlers make to the platform, logged in the order in which they are
  made: the argument of \<open>WatchPosition\<close> is the identifier that \<^verbatim>\<open>watchPosition\<close>
  returned, the one of \<open>CaptureStream\<close> the frame rate, those of \<open>NewMediaRecorder\<close>
  the recorder and the audio tracks of its stream.
\<close>

datatype call =
    WatchPosition nat
  | ClearWatch nat
  | GetUserMedia
  | TrackStop nat
  | CaptureStream nat
  | NewMediaRecorder nat "nat list"
  | RecorderStart nat
  | RecorderStop nat
  | Download "Blob list"

text \<open>
  The \<^verbatim>\<open>useState\<close> variables and the \<^verbatim>\<open>useRef\<close> cells of the component (lines 23
  to 44), then the platform's side: the \<^verbatim>\<open>chunks\<close> array that each recorder's handlers
  close over, the number of \<^verbatim>\<open>getUserMedia\<close> promises not yet settled, and the log of
  calls. \<^verbatim>\<open>videoRef\<close> is left out: nothing modelled here reads it. \<^verbatim>\<open>canvasRef\<close> is
  not a field: see \<open>canvasRef\<close> below.
\<close>

record app =
  speed :: real
  maxSpeed :: real
  isTracking :: bool
  error :: "string option"
  accuracy :: "real option"
  heading :: "real option"
  unit :: unit_t
  isConnected :: bool
  isRecording :: bool
  isCameraActive :: bool
  recordedChunks :: "Blob list"
  cameraError :: "string option"
  watchIdRef :: "nat option"
  lastPositionRef :: "Position option"
  speedHistoryRef :: "real list"
  mediaRecorderRef :: "nat option"
  streamRef :: "MediaStream option"
  recorders :: "Blob list list"
  pendingMedia :: nat
  calls :: "call list"

definition initial :: app where
  "initial =
     \<lparr>speed = 0, maxSpeed = 0, isTracking = False, error = None, accuracy = None,
      heading = None, unit = mph, isConnected = False, isRecording = False,
      isCameraActive = False, recordedChunks = [], cameraError = None,
      watchIdRef = None, lastPositionRef = None, speedHistoryRef = [],
      mediaRecorderRef = None, streamRef = None, recorders = [], pendingMedia = 0,
      calls = []\<rparr>"

text \<open>
  The \<^verbatim>\<open>canvas\<close> element carrying \<^verbatim>\<open>canvasRef\<close> is rendered in the camera view only
  (line 362, under \<^verbatim>\<open>if (isCameraActive)\<close> of line 358), so \<^verbatim>\<open>canvasRef.current\<close> is
  an element exactly when the rendered \<^verbatim>\<open>isCameraActive\<close> is true.
\<close>

definition canvasRef :: "app \<Rightarrow> bool" where
  "canvasRef s = isCameraActive s"

subsection \<open>The camera and the recorder (lines 84 to 167)\<close>

text \<open>
  \<^verbatim>\<open>startCamera\<close> is asynchronous: the part before the \<^verbatim>\<open>await\<close>, and the part after
  it, run when the promise of \<^verbatim>\<open>getUserMedia\<close> settles (\<open>None\<close>: it rejected, and the
  \<^verbatim>\<open>catch\<close> branch runs).
\<close>

definition startCamera_request :: "app \<Rightarrow> app" where
  "startCamera_request s =
     s\<lparr>cameraError := None, pendingMedia := pendingMedia s + 1,
       calls := calls s @ [GetUserMedia]\<rparr>"

definition startCamera_settled :: "MediaStream option \<Rightarrow> app \<Rightarrow> app" where
  "startCamera_settled result s =
     (case result of
        Some stream \<Rightarrow>
          s\<lparr>streamRef := Some stream, isCameraActive := True,
            pendingMedia := pendingMedia s - 1\<rparr>
      | None \<Rightarrow>
          s\<lparr>cameraError := Some ''Camera access denied or not available'',
            pendingMedia := pendingMedia s - 1\<rparr>)"

definition stopRecording :: "app \<Rightarrow> app" where
  "stopRecording s =
     (case mediaRecorderRef s of
        Some r \<Rightarrow>
          if isRecording s
          then s\<lparr>calls := calls s @ [RecorderStop r], isRecording := False\<rparr>
          else s
      | None \<Rightarrow> s)"

text \<open>
  \<^verbatim>\<open>stopCamera\<close>, in the order of the source: the tracks are stopped and \<^verbatim>\<open>streamRef\<close>
  cleared, \<^verbatim>\<open>isCameraActive\<close> is set to false, and then, if \<^verbatim>\<open>isRecording\<close>,
  \<^verbatim>\<open>stopRecording\<close> is called. Nothing before that call writes \<^verbatim>\<open>isRecording\<close>, so the
  value \<^verbatim>\<open>stopRecording\<close> reads is the one of the render that made the handler.
\<close>

definition stopCamera :: "app \<Rightarrow> app" where
  "stopCamera s =
     (let s1 = (case streamRef s of
                  Some stream \<Rightarrow>
                    s\<lparr>calls := calls s @ map TrackStop (getTracks stream),
                      streamRef := None\<rparr>
                | None \<Rightarrow> s);
          s2 = s1\<lparr>isCameraActive := False\<rparr>
      in if isRecording s then stopRecording s2 else s2)"

definition startRecording :: "app \<Rightarrow> app" where
  "startRecording s =
     (case streamRef s of
        None \<Rightarrow> s
      | Some stream \<Rightarrow>
          if \<not> canvasRef s then s
          else let r = length (recorders s)
               in s\<lparr>recorders := recorders s @ [ [] ],
                    mediaRecorderRef := Some r,
                    calls := calls s @ [CaptureStream 30,
                                        NewMediaRecorder r (audioTracks stream),
                                        RecorderStart r],
                    isRecording := True\<rparr>)"

text \<open>The handlers \<^verbatim>\<open>ondataavailable\<close> and \<^verbatim>\<open>onstop\<close> of the recorder \<open>r\<close>.\<close>

definition ondataavailable :: "nat \<Rightarrow> Blob \<Rightarrow> app \<Rightarrow> app" where
  "ondataavailable r sz s =
     (if r < length (recorders s) \<and> sz > 0
      then s\<lparr>recorders := (recorders s)[r := recorders s ! r @ [sz]]\<rparr>
      else s)"

definition onstop :: "nat \<Rightarrow> app \<Rightarrow> app" where
  "onstop r s =
     (if r < length (recorders s) then s\<lparr>recordedChunks := recorders s ! r\<rparr> else s)"

definition downloadVideo :: "app \<Rightarrow> app" where
  "downloadVideo s =
     (if length (recordedChunks s) = 0 then s
      else s\<lparr>calls := calls s @ [Download (recordedChunks s)], recordedChunks := []\<rparr>)"

subsection \<open>Tracking (lines 253 to 340)\<close>

text \<open>
  \<^verbatim>\<open>startTracking\<close>: the argument is \<open>None\<close> when \<^verbatim>\<open>navigator.geolocation\<close> is
  missing, and otherwise the identifier that \<^verbatim>\<open>watchPosition\<close> returns.
\<close>

definition startTracking :: "nat option \<Rightarrow> app \<Rightarrow> app" where
  "startTracking geolocation s =
     (case geolocation of
        None \<Rightarrow> s\<lparr>error := Some ''Geolocation is not supported by this browser''\<rparr>
      | Some watchId \<Rightarrow>
          s\<lparr>error := None, isTracking := True, lastPositionRef := None,
            speedHistoryRef := [], watchIdRef := Some watchId,
            calls := calls s @ [WatchPosition watchId]\<rparr>)"

text \<open>
  The success handler of \<^verbatim>\<open>watchPosition\<close> (lines 271 to 302). \<open>currentSpeed\<close> is
  the value of the variable \<^verbatim>\<open>currentSpeed\<close> at line 294, before \<^verbatim>\<open>Math.max\<close>.
\<close>

definition currentPosition :: "GeolocationPosition \<Rightarrow> Position" where
  "currentPosition position =
     \<lparr>latitude = coords_latitude position, longitude = coords_longitude position,
      timestamp = position_timestamp position\<rparr>"

definition positionDerived :: "Position option \<Rightarrow> GeolocationPosition \<Rightarrow> real" where
  "positionDerived lastPosition position =
     (case lastPosition of
        Some pos1 \<Rightarrow> calculateSpeed pos1 (currentPosition position)
      | None \<Rightarrow> 0)"

definition currentSpeed :: "Position option \<Rightarrow> GeolocationPosition \<Rightarrow> real" where
  "currentSpeed lastPosition position =
     (case coords_speed position of
        Some v \<Rightarrow> if v \<ge> 0 then v * 2.237 else positionDerived lastPosition position
      | None \<Rightarrow> positionDerived lastPosition position)"

definition rawSample :: "Position option \<Rightarrow> GeolocationPosition \<Rightarrow> real" where
  "rawSample lastPosition position = max 0 (currentSpeed lastPosition position)"

definition watchSuccess :: "GeolocationPosition \<Rightarrow> app \<Rightarrow> app" where
  "watchSuccess position s =
     (let (smoothedSpeed, history) =
            smoothSpeed (rawSample (lastPositionRef s) position) (speedHistoryRef s)
      in s\<lparr>isConnected := True,
           accuracy := Some (coords_accuracy position),
           heading := (case coords_heading position of
                         Some h \<Rightarrow> Some h
                       | None \<Rightarrow> heading s),
           speedHistoryRef := history,
           speed := smoothedSpeed,
           maxSpeed := max (maxSpeed s) smoothedSpeed,
           lastPositionRef := Some (currentPosition position)\<rparr>)"

text \<open>
  The error handler (lines 303 to 319). The codes are the constants of
  \<^verbatim>\<open>GeolocationPositionError\<close> of the Geolocation API.
\<close>

definition PERMISSION_DENIED :: nat where "PERMISSION_DENIED = 1"
definition POSITION_UNAVAILABLE :: nat where "POSITION_UNAVAILABLE = 2"
definition TIMEOUT :: nat where "TIMEOUT = 3"

definition errorMessage :: "nat \<Rightarrow> string" where
  "errorMessage code =
     (if code = PERMISSION_DENIED
      then ''Location access denied. Please enable location permissions.''
      else if code = POSITION_UNAVAILABLE then ''Location information unavailable.''
      else if code = TIMEOUT then ''Location request timed out.''
      else ''An unknown error occurred.'')"

definition watchError :: "nat \<Rightarrow> app \<Rightarrow> app" where
  "watchError code s = s\<lparr>isConnected := False, error := Some (errorMessage code)\<rparr>"

definition stopTracking :: "app \<Rightarrow> app" where
  "stopTracking s =
     (let s1 = (case watchIdRef s of
                  Some watchId \<Rightarrow>
                    s\<lparr>calls := calls s @ [ClearWatch watchId], watchIdRef := None\<rparr>
                | None \<Rightarrow> s)
      in s1\<lparr>isTracking := False, isConnected := False, speed := 0\<rparr>)"

definition resetMaxSpeed :: "app \<Rightarrow> app" where
  "resetMaxSpeed s = s\<lparr>maxSpeed := 0\<rparr>"

definition toggleUnit :: "app \<Rightarrow> app" where
  "toggleUnit s = s\<lparr>unit := (if unit s = mph then kmh else mph)\<rparr>"

section \<open>Events: the buttons of the two views and the platform's callbacks\<close>

datatype event =
    Click_StartTracking "nat option"
  | Click_StopTracking
  | Click_ToggleUnit
  | Click_StartCamera
  | Click_StopCamera
  | Click_ResetMaxSpeed
  | Click_StartRecording
  | Click_StopRecording
  | Click_Download
  | Media_Settled "MediaStream option"
  | Watch_Success nat GeolocationPosition
  | Watch_Error nat nat
  | Recorder_Data nat Blob
  | Recorder_Stop nat

text \<open>
  Whether the subscription \<open>w\<close> is live, read from the log of calls, latest call
  first: the latest of \<^verbatim>\<open>watchPosition\<close> returning \<open>w\<close> and \<^verbatim>\<open>clearWatch(w)\<close> decides.
\<close>

fun watchLive :: "nat \<Rightarrow> call list \<Rightarrow> bool" where
  "watchLive w [] = False"
| "watchLive w (c # cs) =
     (if c = ClearWatch w then False
      else if c = WatchPosition w then True
      else watchLive w cs)"

text \<open>
  When an event can happen. For a click: the button is rendered and not disabled. The
  camera view (lines 358 to 420) replaces the main view while \<^verbatim>\<open>isCameraActive\<close>: it
  shows Start Recording (disabled unless \<^verbatim>\<open>isTracking\<close>) or Stop Recording, Download
  when there are chunks, and Exit Camera. The main view shows Start or Stop Tracking,
  the unit button, Start Camera (disabled unless \<^verbatim>\<open>isTracking\<close>) and Reset Max Speed
  (disabled when \<^verbatim>\<open>maxSpeed\<close> is 0). For a callback: the platform has what it belongs
  to (a live subscription, a pending promise, a recorder that exists and, for
  \<^verbatim>\<open>onstop\<close>, was stopped).
\<close>

fun enabled :: "event \<Rightarrow> app \<Rightarrow> bool" where
  "enabled (Click_StartTracking g) s = (\<not> isCameraActive s \<and> \<not> isTracking s)"
| "enabled Click_StopTracking s = (\<not> isCameraActive s \<and> isTracking s)"
| "enabled Click_ToggleUnit s = (\<not> isCameraActive s)"
| "enabled Click_StartCamera s = (\<not> isCameraActive s \<and> isTracking s)"
| "enabled Click_StopCamera s = isCameraActive s"
| "enabled Click_ResetMaxSpeed s = (\<not> isCameraActive s \<and> maxSpeed s \<noteq> 0)"
| "enabled Click_StartRecording s =
     (isCameraActive s \<and> \<not> isRecording s \<and> isTracking s)"
| "enabled Click_StopRecording s = (isCameraActive s \<and> isRecording s)"
| "enabled Click_Download s = (isCameraActive s \<and> length (recordedChunks s) > 0)"
| "enabled (Media_Settled result) s = (pendingMedia s > 0)"
| "enabled (Watch_Success w position) s = watchLive w (rev (calls s))"
| "enabled (Watch_Error w code) s = watchLive w (rev (calls s))"
| "enabled (Recorder_Data r sz) s = (r < length (recorders s))"
| "enabled (Recorder_Stop r) s = (RecorderStop r \<in> set (calls s))"

fun handler :: "event \<Rightarrow> app \<Rightarrow> app" where
  "handler (Click_StartTracking g) s = startTracking g s"
| "handler Click_StopTracking s = stopTracking s"
| "handler Click_ToggleUnit s = toggleUnit s"
| "handler Click_StartCamera s = startCamera_request s"
| "handler Click_StopCamera s = stopCamera s"
| "handler Click_ResetMaxSpeed s = resetMaxSpeed s"
| "handler Click_StartRecording s = startRecording s"
| "handler Click_StopRecording s = stopRecording s"
| "handler Click_Download s = downloadVideo s"
| "handler (Media_Settled result) s = startCamera_settled result s"
| "handler (Watch_Success w position) s = watchSuccess position s"
| "handler (Watch_Error w code) s = watchError code s"
| "handler (Recorder_Data r sz) s = ondataavailable r sz s"
| "handler (Recorder_Stop r) s = onstop r s"

text \<open>An event that cannot happen changes nothing: no handler runs.\<close>

definition dispatch :: "event \<Rightarrow> app \<Rightarrow> app" where
  "dispatch e s = (if enabled e s then handler e s else s)"

fun run :: "event list \<Rightarrow> app \<Rightarrow> app" where
  "run [] s = s"
| "run (e # es) s = run es (dispatch e s)"

inductive reachable :: "app \<Rightarrow> bool" where
  reachable_initial: "reachable initial"
| reachable_step: "reachable s \<Longrightarrow> enabled e s \<Longrightarrow> reachable (handler e s)"

text \<open>
  What holds in every state the component can be in: tracking is on exactly when a
  subscription is held, and that subscription is the only live one; while tracking is
  off the speed is 0 and the source counts as disconnected; the window has at most 5
  entries; a recording is only on in the camera view, with tracking on, a stream and
  a recorder; the recorder referred to exists.
\<close>

definition session_invariant :: "app \<Rightarrow> bool" where
  "session_invariant s =
     ((isTracking s \<longleftrightarrow> watchIdRef s \<noteq> None) \<and>
      (\<forall>w. watchLive w (rev (calls s)) \<longrightarrow> watchIdRef s = Some w) \<and>
      (\<not> isTracking s \<longrightarrow> speed s = 0 \<and> \<not> isConnected s) \<and>
      length (speedHistoryRef s) \<le> 5 \<and>
      (isRecording s \<longrightarrow>
         isCameraActive s \<and> isTracking s \<and> mediaRecorderRef s \<noteq> None
         \<and> streamRef s \<noteq> None) \<and>
      (\<forall>r. mediaRecorderRef s = Some r \<longrightarrow> r < length (recorders s)))"


subsection \<open>Concrete sessions\<close>

definition fix_device :: GeolocationPosition where
  "fix_device =
     \<lparr>coords_latitude = 51, coords_longitude = 0, coords_accuracy = 5,
      coords_heading = Some 90, coords_speed = Some 10, position_timestamp = 1000\<rparr>"

definition fix_plain :: GeolocationPosition where
  "fix_plain =
     \<lparr>coords_latitude = 51, coords_longitude = 0, coords_accuracy = 8,
      coords_heading = None, coords_speed = None, position_timestamp = 2000\<rparr>"

definition camera_stream :: MediaStream where
  "camera_stream = \<lparr>videoTracks = [0], audioTracks = [1]\<rparr>"

text \<open>
  Tracking is started and a fix arrives; the camera is requested; tracking is stopped
  while the permission prompt is open; then the stream arrives: the camera view is
  shown while tracking is off.
\<close>

definition idle_camera_session :: "event list" where
  "idle_camera_session =
     [Click_StartTracking (Some 1), Watch_Success 1 fix_device, Click_StartCamera,
      Click_StopTracking, Media_Settled (Some camera_stream)]"

text \<open>Tracking, then the camera view.\<close>

definition camera_session :: "event list" where
  "camera_session =
     [Click_StartTracking (Some 1), Watch_Success 1 fix_device, Click_StartCamera,
      Media_Settled (Some camera_stream)]"

text \<open>The same, then a recording that has received one chunk.\<close>

definition recording_session :: "event list" where
  "recording_session =
     [Click_StartTracking (Some 1), Watch_Success 1 fix_device, Click_StartCamera,
      Media_Settled (Some camera_stream), Click_StartRecording, Recorder_Data 0 100]"

text \<open>Tracking, a fix, a timeout of the source, and a second fix.\<close>

definition failure_session :: "event list" where
  "failure_session =
     [Click_StartTracking (Some 1), Watch_Success 1 fix_device, Watch_Error 1 TIMEOUT,
      Watch_Success 1 fix_plain]"

text \<open>The same, and tracking is stopped.\<close>

definition stopped_session :: "event list" where
  "stopped_session =
     [Click_StartTracking (Some 1), Watch_Success 1 fix_device, Watch_Error 1 TIMEOUT,
      Watch_Success 1 fix_plain, Click_StopTracking]"

section \<open>The arithmetic of the code: IEEE doubles\<close>

text \<open>
  The definitions above compute with exact reals; that decides every question about
  states, windows and the order of calls. What the code computes with its numbers is
  decided here: a \<^verbatim>\<open>number\<close> is a finite double, an infinity or NaN, and every
  arithmetic operation returns the exact result rounded to the nearest double, ties to
  the even significand (IEEE 754 binary64, as ECMAScript prescribes). The two zeros
  are not distinguished: only a division by a zero could tell them apart, and the
  modelled code has none (\<^verbatim>\<open>timeDiff\<close> is tested before it divides, the total weight
  is at least 1, the other divisors are the literals 180, 2 and 1000).
\<close>

datatype number = Finite real | PosInf | NegInf | NaN

text \<open>Rounding a real to the nearest integer, a tie to the even one.\<close>

definition rne :: "real \<Rightarrow> int" where
  "rne t =
     (let f = \<lfloor>t\<rfloor>; d = t - real_of_int f
      in if d < 1 / 2 then f
         else if 1 / 2 < d then f + 1
         else if even f then f else f + 1)"

text \<open>
  The exponent of the binade of \<open>x\<close>, not below the least normal exponent, and the
  distance between neighbouring doubles there (53 significant bits).
\<close>

definition expo :: "real \<Rightarrow> int" where
  "expo x = max \<lfloor>log 2 \<bar>x\<bar>\<rfloor> (- 1022)"

definition ulp :: "real \<Rightarrow> real" where
  "ulp x = 2 powr real_of_int (expo x - 52)"

text \<open>
  The double nearest to a real: a multiple of \<open>ulp x\<close>, and an infinity when the
  rounded value reaches \<open>2 ^ 1024\<close>. A decimal literal of the source denotes \<open>fl\<close>
  of its value.
\<close>

definition fl :: "real \<Rightarrow> number" where
  "fl x =
     (if x = 0 then Finite 0
      else let y = real_of_int (rne (x / ulp x)) * ulp x
           in if 2 ^ 1024 \<le> \<bar>y\<bar> then (if 0 < x then PosInf else NegInf)
              else Finite y)"

definition unit_roundoff :: real where
  "unit_roundoff = 1 / 2 ^ 53"

text \<open>The operators \<^verbatim>\<open>+\<close>, \<^verbatim>\<open>-\<close>, \<^verbatim>\<open>*\<close>, \<^verbatim>\<open>/\<close> and \<^verbatim>\<open><\<close> on numbers, and \<^verbatim>\<open>Math.max\<close>.\<close>

definition inf_of :: "real \<Rightarrow> number" where
  "inf_of s = (if 0 < s then PosInf else if s < 0 then NegInf else NaN)"

fun num_sgn :: "number \<Rightarrow> real" where
  "num_sgn (Finite x) = sgn x"
| "num_sgn PosInf = 1"
| "num_sgn NegInf = - 1"
| "num_sgn NaN = 0"

fun num_add :: "number \<Rightarrow> number \<Rightarrow> number" where
  "num_add NaN b = NaN"
| "num_add a NaN = NaN"
| "num_add (Finite x) (Finite y) = fl (x + y)"
| "num_add PosInf NegInf = NaN"
| "num_add NegInf PosInf = NaN"
| "num_add PosInf b = PosInf"
| "num_add NegInf b = NegInf"
| "num_add a PosInf = PosInf"
| "num_add a NegInf = NegInf"

fun num_neg :: "number \<Rightarrow> number" where
  "num_neg (Finite x) = Finite (- x)"
| "num_neg PosInf = NegInf"
| "num_neg NegInf = PosInf"
| "num_neg NaN = NaN"

definition num_sub :: "number \<Rightarrow> number \<Rightarrow> number" where
  "num_sub a b = num_add a (num_neg b)"

fun num_mul :: "number \<Rightarrow> number \<Rightarrow> number" where
  "num_mul NaN b = NaN"
| "num_mul a NaN = NaN"
| "num_mul (Finite x) (Finite y) = fl (x * y)"
| "num_mul a b = inf_of (num_sgn a * num_sgn b)"

fun num_div :: "number \<Rightarrow> number \<Rightarrow> number" where
  "num_div NaN b = NaN"
| "num_div a NaN = NaN"
| "num_div (Finite x) (Finite y) = (if y = 0 then inf_of x else fl (x / y))"
| "num_div (Finite x) b = Finite 0"
| "num_div a (Finite y) = inf_of (num_sgn a * (if y < 0 then - 1 else 1))"
| "num_div a b = NaN"

fun num_less :: "number \<Rightarrow> number \<Rightarrow> bool" where
  "num_less NaN b = False"
| "num_less a NaN = False"
| "num_less (Finite x) (Finite y) = (x < y)"
| "num_less PosInf b = False"
| "num_less a PosInf = True"
| "num_less a NegInf = False"
| "num_less NegInf b = True"

fun Math_max :: "number \<Rightarrow> number \<Rightarrow> number" where
  "Math_max NaN b = NaN"
| "Math_max a NaN = NaN"
| "Math_max (Finite x) (Finite y) = Finite (max x y)"
| "Math_max PosInf b = PosInf"
| "Math_max a PosInf = PosInf"
| "Math_max NegInf b = b"
| "Math_max a NegInf = a"

text \<open>A number that is not negative: a finite one from 0 on, or the positive infinity.\<close>

fun nonnegative :: "number \<Rightarrow> bool" where
  "nonnegative (Finite x) = (0 \<le> x)"
| "nonnegative PosInf = True"
| "nonnegative NegInf = False"
| "nonnegative NaN = False"

subsection \<open>smoothSpeed in doubles (lines 65 to 82)\<close>

text \<open>
  The loop, the function and the window after a sequence of calls, as \<^const>\<open>weigh\<close>,
  \<^const>\<open>smoothSpeed\<close> and \<^const>\<open>pushes\<close> above, with the operations of the doubles.
  The weight \<^verbatim>\<open>index + 1\<close> is a small integer, which is a double.
\<close>

fun weighD :: "number list \<Rightarrow> nat \<Rightarrow> number \<times> number \<Rightarrow> number \<times> number" where
  "weighD [] i (weightedSum, totalWeight) = (weightedSum, totalWeight)"
| "weighD (x # xs) i (weightedSum, totalWeight) =
     (let weight = Finite (real (i + 1))
      in weighD xs (i + 1)
           (num_add weightedSum (num_mul x weight), num_add totalWeight weight))"

definition smoothSpeedD :: "number \<Rightarrow> number list \<Rightarrow> number \<times> number list" where
  "smoothSpeedD newSpeed history =
     (let h = pushShift newSpeed history;
          (weightedSum, totalWeight) = weighD h 0 (Finite 0, Finite 0)
      in (num_div weightedSum totalWeight, h))"

fun pushesD :: "number list \<Rightarrow> number list \<Rightarrow> number list" where
  "pushesD [] history = history"
| "pushesD (v # vs) history = pushesD vs (snd (smoothSpeedD v history))"

text \<open>
  The weighted average in the words of the specification (section 4.3), its two sums
  taken in the order of the indices and every operation rounded.
\<close>

definition sumD :: "number list \<Rightarrow> number" where
  "sumD xs = foldl num_add (Finite 0) xs"

definition weighted_averageD :: "number list \<Rightarrow> number" where
  "weighted_averageD xs =
     num_div (sumD (map (\<lambda>i. num_mul (xs ! i) (Finite (real (i + 1)))) [0..<length xs]))
             (sumD (map (\<lambda>i. Finite (real (i + 1))) [0..<length xs]))"

subsection \<open>calculateSpeed and the speed of a fix in doubles (lines 46 to 63, 285 to 301)\<close>

text \<open>
  \<^verbatim>\<open>Math.PI\<close> is the double nearest to \<open>pi\<close>. ECMAScript leaves the accuracy of
  \<^verbatim>\<open>Math.sin\<close>, \<^verbatim>\<open>Math.cos\<close> and \<^verbatim>\<open>Math.atan2\<close> to the platform, so their values
  on numbers are a parameter; what ECMAScript fixes is written out: the sine and the
  cosine of an infinity or of NaN are NaN, and so is \<^verbatim>\<open>Math.atan2\<close> when an argument
  is NaN. \<^verbatim>\<open>Math.sqrt\<close> is the correctly rounded root, and NaN below 0.
\<close>

definition Math_PI :: number where
  "Math_PI = Finite (884279719003555 / 281474976710656)"

record platform =
  sin_of :: "real \<Rightarrow> number"
  cos_of :: "real \<Rightarrow> number"
  atan2_of :: "number \<Rightarrow> number \<Rightarrow> number"

definition Math_sinD :: "platform \<Rightarrow> number \<Rightarrow> number" where
  "Math_sinD M x = (case x of Finite r \<Rightarrow> sin_of M r | _ \<Rightarrow> NaN)"

definition Math_cosD :: "platform \<Rightarrow> number \<Rightarrow> number" where
  "Math_cosD M x = (case x of Finite r \<Rightarrow> cos_of M r | _ \<Rightarrow> NaN)"

definition Math_atan2D :: "platform \<Rightarrow> number \<Rightarrow> number \<Rightarrow> number" where
  "Math_atan2D M y x = (if y = NaN \<or> x = NaN then NaN else atan2_of M y x)"

definition Math_sqrtD :: "number \<Rightarrow> number" where
  "Math_sqrtD x =
     (case x of
        Finite r \<Rightarrow> if r < 0 then NaN else fl (sqrt r)
      | PosInf \<Rightarrow> PosInf
      | _ \<Rightarrow> NaN)"

text \<open>
  \<^verbatim>\<open>calculateSpeed\<close>, operation by operation. The coordinates and the timestamps of
  a fix are doubles that the platform delivers.
\<close>

definition calculateSpeedD :: "platform \<Rightarrow> Position \<Rightarrow> Position \<Rightarrow> number" where
  "calculateSpeedD M pos1 pos2 =
     (let R = fl 6371000;
          phi1 = num_div (num_mul (Finite (latitude pos1)) Math_PI) (Finite 180);
          phi2 = num_div (num_mul (Finite (latitude pos2)) Math_PI) (Finite 180);
          dphi = num_div (num_mul (num_sub (Finite (latitude pos2)) (Finite (latitude pos1)))
                                  Math_PI) (Finite 180);
          dlam = num_div (num_mul (num_sub (Finite (longitude pos2)) (Finite (longitude pos1)))
                                  Math_PI) (Finite 180);
          a = num_add
                (num_mul (Math_sinD M (num_div dphi (Finite 2)))
                         (Math_sinD M (num_div dphi (Finite 2))))
                (num_mul
                   (num_mul (num_mul (Math_cosD M phi1) (Math_cosD M phi2))
                            (Math_sinD M (num_div dlam (Finite 2))))
                   (Math_sinD M (num_div dlam (Finite 2))));
          c = num_mul (Finite 2)
                (Math_atan2D M (Math_sqrtD a) (Math_sqrtD (num_sub (Finite 1) a)));
          distance = num_mul R c;
          timeDiff = num_div (num_sub (Finite (timestamp pos2)) (Finite (timestamp pos1)))
                             (Finite 1000)
      in if timeDiff = Finite 0 then Finite 0
         else let speedMps = num_div distance timeDiff in num_mul speedMps (fl 2.237))"

text \<open>
  The numbers of the success handler: \<^verbatim>\<open>currentSpeed\<close> at line 294, the argument of
  \<^verbatim>\<open>smoothSpeed\<close> at line 296, and the four cells the handler computes with
  (\<^verbatim>\<open>speed\<close>, \<^verbatim>\<open>maxSpeed\<close>, \<^verbatim>\<open>lastPositionRef\<close>, \<^verbatim>\<open>speedHistoryRef\<close>).
\<close>

definition positionDerivedD :: "platform \<Rightarrow> Position option \<Rightarrow> GeolocationPosition \<Rightarrow> number" where
  "positionDerivedD M lastPosition position =
     (case lastPosition of
        Some pos1 \<Rightarrow> calculateSpeedD M pos1 (currentPosition position)
      | None \<Rightarrow> Finite 0)"

definition currentSpeedD :: "platform \<Rightarrow> Position option \<Rightarrow> GeolocationPosition \<Rightarrow> number" where
  "currentSpeedD M lastPosition position =
     (case coords_speed position of
        Some v \<Rightarrow> if v \<ge> 0 then num_mul (Finite v) (fl 2.237)
                  else positionDerivedD M lastPosition position
      | None \<Rightarrow> positionDerivedD M lastPosition position)"

definition rawSampleD :: "platform \<Rightarrow> Position option \<Rightarrow> GeolocationPosition \<Rightarrow> number" where
  "rawSampleD M lastPosition position =
     Math_max (Finite 0) (currentSpeedD M lastPosition position)"

record tracker =
  speedD :: number
  maxSpeedD :: number
  lastPositionD :: "Position option"
  speedHistoryD :: "number list"

definition watchSuccessD :: "platform \<Rightarrow> GeolocationPosition \<Rightarrow> tracker \<Rightarrow> tracker" where
  "watchSuccessD M position t =
     (let (smoothedSpeed, history) =
            smoothSpeedD (rawSampleD M (lastPositionD t) position) (speedHistoryD t)
      in t\<lparr>speedHistoryD := history,
           speedD := smoothedSpeed,
           maxSpeedD := Math_max (maxSpeedD t) smoothedSpeed,
           lastPositionD := Some (currentPosition position)\<rparr>)"

text \<open>The four cells when \<^verbatim>\<open>startTracking\<close> has run in a fresh component.\<close>

definition started :: tracker where
  "started = \<lparr>speedD = Finite 0, maxSpeedD = Finite 0, lastPositionD = None, speedHistoryD = []\<rparr>"

subsection \<open>A platform and three fixes\<close>

text \<open>
  The angle that \<^verbatim>\<open>Math.atan2\<close> approximates, infinite arguments included, and a
  platform: the correctly rounded functions, with the values written out that the
  sine and the cosine of the C library return at the arguments met in the example
  below (the sine of \<open>-0.13962634015954636\<close> and of \<open>1.5707963267948966\<close>, the cosine
  of \<open>0.13962634015954636\<close> and of its negative).
\<close>

definition angle :: "number \<Rightarrow> number \<Rightarrow> real" where
  "angle y x =
     (case (y, x) of
        (Finite a, Finite b) \<Rightarrow> Math_atan2 a b
      | (Finite a, PosInf) \<Rightarrow> 0
      | (Finite a, NegInf) \<Rightarrow> (if a < 0 then - pi else pi)
      | (PosInf, Finite b) \<Rightarrow> pi / 2
      | (NegInf, Finite b) \<Rightarrow> - (pi / 2)
      | (PosInf, PosInf) \<Rightarrow> pi / 4
      | (PosInf, NegInf) \<Rightarrow> 3 * pi / 4
      | (NegInf, PosInf) \<Rightarrow> - (pi / 4)
      | (NegInf, NegInf) \<Rightarrow> - (3 * pi / 4)
      | _ \<Rightarrow> 0)"

definition replayed :: platform where
  "replayed =
     \<lparr>sin_of = (\<lambda>x. if x = - (5030569068109113 / 36028797018963968)
                      then Finite (- (5014239404989977 / 36028797018963968))
                      else if x = 884279719003555 / 562949953421312 then Finite 1
                      else fl (sin x)),
      cos_of = (\<lambda>x. if x = 5030569068109113 / 36028797018963968
                         \<or> x = - (5030569068109113 / 36028797018963968)
                      then Finite (4459770905381437 / 4503599627370496)
                      else fl (cos x)),
      atan2_of = (\<lambda>y x. fl (angle y x))\<rparr>"

text \<open>
  A fix at latitude 8, longitude 0 with a reported speed of 10 m/s; one second later
  a fix at its antipode, latitude -8, longitude 180, without a reported speed; one
  more second later the same place with a reported speed again.
\<close>

definition antipode_first :: GeolocationPosition where
  "antipode_first =
     \<lparr>coords_latitude = 8, coords_longitude = 0, coords_accuracy = 5,
      coords_heading = None, coords_speed = Some 10, position_timestamp = 0\<rparr>"

definition antipode_second :: GeolocationPosition where
  "antipode_second =
     \<lparr>coords_latitude = - 8, coords_longitude = 180, coords_accuracy = 5,
      coords_heading = None, coords_speed = None, position_timestamp = 1000\<rparr>"

definition antipode_third :: GeolocationPosition where
  "antipode_third =
     \<lparr>coords_latitude = - 8, coords_longitude = 180, coords_accuracy = 5,
      coords_heading = None, coords_speed = Some 10, position_timestamp = 2000\<rparr>"

section \<open>Lemmas on the numbers\<close>

text \<open>
  On the reals the haversine term lies between 0 and 1 whatever the coordinates, so
  both square roots of \<^const>\<open>calculateSpeed\<close> are roots of non-negative numbers.
\<close>

lemma a_hav_bounds: "0 \<le> a_hav p q \<and> a_hav p q \<le> 1"
proof -
  define x where "x = radians (latitude p)"
  define y where "y = radians (latitude q)"
  define s where "s = (sin ((radians (longitude q) - radians (longitude p)) / 2))\<^sup>2"
  define C where "C = cos (y - x)"
  define D where "D = cos (y + x)"
  have s: "0 \<le> s" "s \<le> 1"
    unfolding s_def by (simp_all add: abs_square_le_1)
  have C: "- 1 \<le> C" "C \<le> 1" and D: "- 1 \<le> D" "D \<le> 1"
    unfolding C_def D_def by simp_all
  have e: "2 * ((y - x) / 2) = y - x" by simp
  have half: "(sin ((y - x) / 2))\<^sup>2 = (1 - C) / 2"
    using cos_double_sin[of "(y - x) / 2"] unfolding e C_def by simp
  have prod: "cos x * cos y = (C + D) / 2"
    unfolding C_def D_def by (simp add: cos_add cos_diff)
  have "a_hav p q = (sin ((y - x) / 2))\<^sup>2 + cos x * cos y * s"
    by (simp add: a_hav_def x_def y_def s_def)
  then have a: "a_hav p q = (1 - C) / 2 + (C + D) / 2 * s"
    by (simp only: half prod)
  have "a_hav p q = (1 - (1 - s) * C + s * D) / 2"
    unfolding a by (simp add: field_simps)
  moreover have "(1 - s) * C \<le> (1 - s) * 1" "(1 - s) * (- 1) \<le> (1 - s) * C"
    using s C by (intro mult_left_mono; simp)+
  moreover have "s * D \<le> s * 1" "s * (- 1) \<le> s * D"
    using s D by (intro mult_left_mono; simp)+
  ultimately show ?thesis by simp
qed


text \<open>The window after one push and after a sequence of pushes.\<close>

lemma pushShift_nonempty: "pushShift v h \<noteq> []"
  by (cases h) (auto simp: pushShift_def Let_def)

lemma snd_smooth: "snd (smoothSpeed v h) = pushShift v h"
  by (simp add: smoothSpeed_def Let_def split: prod.splits)

lemma pushShift_drop: "length h \<le> 5 \<Longrightarrow> pushShift v h = drop (length h - 4) (h @ [v])"
  by (cases "length h = 5") (auto simp: pushShift_def Let_def drop_Suc tl_append split: list.splits)

lemma pushes_drop:
  "length h \<le> 5 \<Longrightarrow> pushes vs h = drop (length h + length vs - 5) (h @ vs)"
proof (induction vs arbitrary: h)
  case Nil
  then show ?case by simp
next
  case (Cons v vs)
  have len: "length (pushShift v h) \<le> 5"
    using Cons.prems by (simp add: pushShift_drop)
  show ?case
  proof (cases "length h = 5")
    case True
    then obtain a t where h: "h = a # t" and t: "length t = 4"
      by (cases h) auto
    have ps: "pushShift v h = t @ [v]"
      using t by (simp add: h pushShift_def Let_def)
    have "pushes (v # vs) h = pushes vs (t @ [v])"
      by (simp add: snd_smooth ps)
    also have "\<dots> = drop (length vs) ((t @ [v]) @ vs)"
      using Cons.IH[of "t @ [v]"] t by simp
    also have "\<dots> = drop (length h + length (v # vs) - 5) (h @ v # vs)"
      using t by (simp add: h)
    finally show ?thesis .
  next
    case False
    with Cons.prems have "pushShift v h = h @ [v]"
      by (auto simp: pushShift_def Let_def)
    with False Cons.prems Cons.IH[OF len] show ?thesis
      by (auto simp: snd_smooth)
  qed
qed

section \<open>The invariant of the component\<close>

lemma watchLive_TrackStops:
  "watchLive w (rev (map TrackStop ts) @ cs) = watchLive w cs"
  by (induction ts arbitrary: cs) simp_all

lemma watchLive_snoc_TrackStops:
  "watchLive w (rev (cs @ map TrackStop ts)) = watchLive w (rev cs)"
  by (simp add: watchLive_TrackStops)

lemma invariant_initial: "session_invariant initial"
  by (simp add: session_invariant_def initial_def)

lemma invariant_startTracking:
  assumes "session_invariant s" "\<not> isTracking s"
  shows "session_invariant (startTracking g s)"
  using assms by (cases g) (auto simp: session_invariant_def startTracking_def)

lemma invariant_stopTracking:
  assumes "session_invariant s" "\<not> isCameraActive s"
  shows "session_invariant (stopTracking s)"
  using assms
  by (auto simp: session_invariant_def stopTracking_def Let_def split: option.splits)

lemma invariant_watchSuccess:
  assumes "session_invariant s" "watchLive w (rev (calls s))"
  shows "session_invariant (watchSuccess p s)"
proof -
  have "length (pushShift (rawSample (lastPositionRef s) p) (speedHistoryRef s)) \<le> 5"
    using assms(1) by (simp add: session_invariant_def pushShift_drop)
  with assms show ?thesis
    by (auto simp: session_invariant_def watchSuccess_def smoothSpeed_def Let_def
        split: prod.splits)
qed

lemma invariant_watchError:
  assumes "session_invariant s" "watchLive w (rev (calls s))"
  shows "session_invariant (watchError c s)"
  using assms by (auto simp: session_invariant_def watchError_def)

lemma invariant_stopCamera:
  assumes "session_invariant s"
  shows "session_invariant (stopCamera s)"
  using assms
  by (auto simp: session_invariant_def stopCamera_def stopRecording_def Let_def
      watchLive_snoc_TrackStops watchLive_TrackStops split: option.splits)

lemma invariant_startRecording:
  assumes "session_invariant s" "isCameraActive s" "isTracking s"
  shows "session_invariant (startRecording s)"
  using assms
  by (auto simp: session_invariant_def startRecording_def canvasRef_def Let_def
      split: option.splits)

lemma invariant_stopRecording:
  assumes "session_invariant s"
  shows "session_invariant (stopRecording s)"
  using assms
  by (auto simp: session_invariant_def stopRecording_def split: option.splits)

lemma invariant_others:
  assumes "session_invariant s"
  shows "session_invariant (toggleUnit s)"
    and "session_invariant (startCamera_request s)"
    and "session_invariant (startCamera_settled r s)"
    and "\<not> isCameraActive s \<Longrightarrow> session_invariant (resetMaxSpeed s)"
    and "session_invariant (downloadVideo s)"
    and "session_invariant (ondataavailable k b s)"
    and "session_invariant (onstop k s)"
  using assms
  by (auto simp: session_invariant_def toggleUnit_def startCamera_request_def
      startCamera_settled_def resetMaxSpeed_def downloadVideo_def ondataavailable_def
      onstop_def split: option.splits)

lemma invariant_handler:
  assumes "session_invariant s" "enabled e s"
  shows "session_invariant (handler e s)"
proof (cases e)
  case (Click_StartTracking g)
  with assms show ?thesis by (simp add: invariant_startTracking)
next
  case Click_StopTracking
  with assms show ?thesis by (simp add: invariant_stopTracking)
next
  case Click_StopCamera
  with assms show ?thesis by (simp add: invariant_stopCamera)
next
  case Click_StartRecording
  with assms show ?thesis by (simp add: invariant_startRecording)
next
  case Click_StopRecording
  with assms show ?thesis by (simp add: invariant_stopRecording)
next
  case (Watch_Success w p)
  with assms show ?thesis by (simp add: invariant_watchSuccess)
next
  case (Watch_Error w c)
  with assms show ?thesis by (simp add: invariant_watchError)
qed (use assms in \<open>simp_all add: invariant_others\<close>)

lemma reachable_invariant: "reachable s \<Longrightarrow> session_invariant s"
  by (induction rule: reachable.induct) (simp_all add: invariant_initial invariant_handler)

lemma reachable_dispatch: "reachable s \<Longrightarrow> reachable (dispatch e s)"
  by (simp add: dispatch_def reachable_step)

lemma reachable_run: "reachable s \<Longrightarrow> reachable (run es s)"
  by (induction es arbitrary: s) (simp_all add: reachable_dispatch)

section \<open>Handlers and concrete sessions\<close>

lemmas handler_defs =
  startTracking_def stopTracking_def watchSuccess_def watchError_def resetMaxSpeed_def
  toggleUnit_def startCamera_request_def startCamera_settled_def stopCamera_def
  startRecording_def stopRecording_def ondataavailable_def onstop_def downloadVideo_def
  canvasRef_def getTracks_def

lemmas sample_defs =
  rawSample_def currentSpeed_def positionDerived_def currentPosition_def
  smoothSpeed_def pushShift_def errorMessage_def
  PERMISSION_DENIED_def POSITION_UNAVAILABLE_def TIMEOUT_def

lemmas run_defs = dispatch_def initial_def fix_device_def fix_plain_def camera_stream_def

lemma enter_recording:
  assumes "\<not> isRecording s" "isRecording (dispatch e s)"
  shows "e = Click_StartRecording \<and> isCameraActive s \<and> isTracking s \<and> streamRef s \<noteq> None"
proof (cases "enabled e s")
  case False
  with assms show ?thesis by (simp add: dispatch_def)
next
  case True
  with assms have h: "isRecording (handler e s)" by (simp add: dispatch_def)
  show ?thesis
  proof (cases e)
    case Click_StartRecording
    with True h assms(1) show ?thesis
      by (auto simp: startRecording_def split: option.splits)
  qed (use h assms(1) in \<open>auto simp: handler_defs Let_def split: option.splits if_splits prod.splits\<close>)
qed

lemma stopTracking_idle:
  assumes "reachable s" "\<not> isTracking s"
  shows "stopTracking s = s"
proof -
  from assms have "watchIdRef s = None" "speed s = 0" "\<not> isConnected s"
    using reachable_invariant[OF assms(1)] by (auto simp: session_invariant_def)
  with assms(2) show ?thesis
    by (simp add: stopTracking_def)
qed

lemma idle_camera_run:
  "\<not> isTracking (run idle_camera_session initial) \<and>
   \<not> isRecording (run idle_camera_session initial) \<and>
   isCameraActive (run idle_camera_session initial) \<and>
   streamRef (run idle_camera_session initial) = Some camera_stream \<and>
   recorders (run idle_camera_session initial) = [] \<and>
   recordedChunks (run idle_camera_session initial) = []"
  by (simp add: idle_camera_session_def run_defs handler_defs sample_defs Let_def)

lemma camera_run:
  "isTracking (run camera_session initial) \<and>
   \<not> isRecording (run camera_session initial) \<and>
   isCameraActive (run camera_session initial) \<and>
   streamRef (run camera_session initial) = Some camera_stream"
  by (simp add: camera_session_def run_defs handler_defs sample_defs Let_def)

lemma recording_run:
  "isRecording (run recording_session initial) \<and>
   streamRef (run recording_session initial) = Some camera_stream \<and>
   mediaRecorderRef (run recording_session initial) = Some 0 \<and>
   recorders (run recording_session initial) = [ [100] ] \<and>
   recordedChunks (run recording_session initial) = [] \<and>
   calls (run recording_session initial)
     = [WatchPosition 1, GetUserMedia, CaptureStream 30, NewMediaRecorder 0 [1],
        RecorderStart 0]"
  by (simp add: recording_session_def run_defs handler_defs sample_defs Let_def)

lemma error_cleared_only_by_start:
  assumes "error s \<noteq> None" "error (handler e s) = None"
  shows "\<exists>w. e = Click_StartTracking (Some w)"
proof (cases e)
  case (Click_StartTracking g)
  with assms show ?thesis by (cases g) (simp_all add: startTracking_def)
qed (use assms in \<open>auto simp: handler_defs errorMessage_def Let_def split: option.splits if_splits prod.splits\<close>)

lemma tracking_run:
  "isTracking (run [Click_StartTracking (Some 1), Watch_Success 1 fix_device] initial)"
  by (simp add: run_defs handler_defs sample_defs Let_def)

lemma stopped_run:
  "error (run stopped_session initial) = Some ''Location request timed out.'' \<and>
   \<not> isTracking (run stopped_session initial)"
  by (simp add: stopped_session_def run_defs handler_defs sample_defs Let_def)

section \<open>Lemmas on rounding\<close>

text \<open>
  How \<^const>\<open>fl\<close> is evaluated at a given real (\<open>fl_eqI\<close>), that it keeps the sign,
  that its relative error is at most \<^const>\<open>unit_roundoff\<close> in the normal range
  (\<open>fl_rel\<close>, \<open>fl_interval\<close>), and that small integers are doubles (\<open>fl_small\<close>).
\<close>

lemma rne_eqI:
  assumes "\<bar>t - real_of_int m\<bar> < 1 / 2 \<or> (\<bar>t - real_of_int m\<bar> = 1 / 2 \<and> even m)"
  shows "rne t = m"
proof -
  consider (below) "real_of_int m \<le> t" "t - real_of_int m < 1 / 2"
    | (above) "t < real_of_int m" "real_of_int m - t < 1 / 2"
    | (half_below) "t = real_of_int m + 1 / 2" "even m"
    | (half_above) "t = real_of_int m - 1 / 2" "even m"
    using assms by (auto simp: abs_if split: if_splits)
  then show ?thesis
  proof cases
    case below
    then have "\<lfloor>t\<rfloor> = m" by (intro floor_unique) linarith+
    with below show ?thesis by (simp add: rne_def Let_def)
  next
    case above
    then have "\<lfloor>t\<rfloor> = m - 1" by (intro floor_unique) (simp, linarith)+
    with above show ?thesis by (auto simp: rne_def Let_def)
  next
    case half_below
    then have "\<lfloor>t\<rfloor> = m" by (intro floor_unique) linarith+
    with half_below show ?thesis by (simp add: rne_def Let_def)
  next
    case half_above
    then have "\<lfloor>t\<rfloor> = m - 1" by (intro floor_unique) (simp, linarith)+
    with half_above show ?thesis by (simp add: rne_def Let_def)
  qed
qed

lemma rne_of_int [simp]: "rne (real_of_int n) = n"
  by (rule rne_eqI) simp

lemma rne_close: "\<bar>real_of_int (rne t) - t\<bar> \<le> 1 / 2"
  unfolding rne_def Let_def by (auto; linarith)

lemma rne_nonneg: "0 \<le> t \<Longrightarrow> 0 \<le> rne t"
  unfolding rne_def Let_def by (auto; linarith?)

lemma rne_ge_int: "real_of_int n \<le> t \<Longrightarrow> n \<le> rne t"
proof -
  assume "real_of_int n \<le> t"
  then have "n \<le> \<lfloor>t\<rfloor>" by (simp add: le_floor_iff)
  then show ?thesis unfolding rne_def Let_def by auto
qed

lemma expo_eqI:
  assumes "- 1022 \<le> e" "2 powr real_of_int e \<le> \<bar>x\<bar>" "\<bar>x\<bar> < 2 powr real_of_int (e + 1)"
  shows "expo x = e"
proof -
  have "0 < (2::real) powr real_of_int e" by simp
  with assms(2) have "0 < \<bar>x\<bar>" by linarith
  then have "\<lfloor>log 2 \<bar>x\<bar>\<rfloor> = e"
    using assms(2,3) by (simp add: floor_log_eq_powr_iff)
  with assms(1) show ?thesis by (simp add: expo_def)
qed

lemma fl_eqI:
  assumes "- 1022 \<le> e" and "e \<le> 1022"
    and "2 powr real_of_int e \<le> \<bar>x\<bar>" and "\<bar>x\<bar> < 2 powr real_of_int (e + 1)"
    and "\<bar>x / 2 powr real_of_int (e - 52) - real_of_int m\<bar> < 1 / 2
         \<or> (\<bar>x / 2 powr real_of_int (e - 52) - real_of_int m\<bar> = 1 / 2 \<and> even m)"
  shows "fl x = Finite (real_of_int m * 2 powr real_of_int (e - 52))"
proof -
  let ?q = "2 powr real_of_int (e - 52)"
  have "0 < (2::real) powr real_of_int e" by simp
  with assms(3) have "0 < \<bar>x\<bar>" by linarith
  then have x: "x \<noteq> 0" by simp
  have e: "expo x = e" using assms(1,3,4) by (rule expo_eqI)
  have r: "rne (x / ulp x) = m" unfolding ulp_def e using assms(5) by (rule rne_eqI)
  have q: "0 < ?q" by simp
  have "\<bar>x\<bar> / ?q < 2 powr real_of_int (e + 1) / ?q"
    using assms(4) q by (simp add: divide_strict_right_mono)
  also have "2 powr real_of_int (e + 1) / ?q = 2 powr 53"
    by (simp add: powr_diff [symmetric])
  finally have "\<bar>x / ?q\<bar> < 2 ^ 53" by simp
  with assms(5) have "\<bar>real_of_int m\<bar> < 2 ^ 53 + 1" by linarith
  then have "real_of_int \<bar>m\<bar> < real_of_int (2 ^ 53 + 1)" by simp
  then have "\<bar>m\<bar> < 2 ^ 53 + 1" by (simp only: of_int_less_iff)
  then have "\<bar>m\<bar> \<le> 2 ^ 53" by linarith
  then have "real_of_int \<bar>m\<bar> \<le> real_of_int (2 ^ 53)" by (simp only: of_int_le_iff)
  then have m: "\<bar>real_of_int m\<bar> \<le> 2 powr 53" by simp
  have ex: "53 + real_of_int (e - 52) = real_of_int (e + 1)" by simp
  have "\<bar>real_of_int m * ?q\<bar> = \<bar>real_of_int m\<bar> * ?q" by (simp add: abs_mult)
  also have "\<dots> \<le> 2 powr 53 * ?q" using m q by (intro mult_right_mono) auto
  also have "\<dots> = 2 powr real_of_int (e + 1)"
    unfolding ex [symmetric] by (simp only: powr_add)
  also have "\<dots> \<le> 2 powr 1023" using assms(2) by (intro powr_mono) auto
  also have "\<dots> < 2 ^ 1024" by simp
  finally have "\<bar>real_of_int m * ?q\<bar> < 2 ^ 1024" .
  with x r show ?thesis by (simp add: fl_def ulp_def e Let_def)
qed

lemma fl_zero [simp]: "fl 0 = Finite 0"
  by (simp add: fl_def)

lemma ulp_pos: "0 < ulp x"
  by (simp add: ulp_def)

lemma fl_nonneg:
  assumes "0 \<le> x"
  shows "fl x = PosInf \<or> (\<exists>y. fl x = Finite y \<and> 0 \<le> y)"
proof (cases "x = 0")
  case True
  then show ?thesis by simp
next
  case False
  with assms have "0 < x" by simp
  then have "0 \<le> x / ulp x" using ulp_pos[of x] by simp
  then have "0 \<le> real_of_int (rne (x / ulp x)) * ulp x"
    using rne_nonneg ulp_pos[of x] by (simp add: less_imp_le)
  with \<open>0 < x\<close> show ?thesis by (auto simp: fl_def Let_def)
qed

lemma fl_rel:
  assumes lo: "2 powr (- 1022) \<le> x" and hi: "x \<le> 2 powr 1023"
  shows "\<exists>y. fl x = Finite y \<and> x * (1 - unit_roundoff) \<le> y \<and> y \<le> x * (1 + unit_roundoff)
           \<and> (\<forall>k. 2 powr real_of_int k \<le> x \<longrightarrow> 2 powr real_of_int k \<le> y)"
proof -
  have "0 < (2::real) powr (- 1022)" by simp
  with lo have xpos: "0 < x" by linarith
  define e where "e = \<lfloor>log 2 x\<rfloor>"
  have e: "2 powr real_of_int e \<le> x" "x < 2 powr real_of_int (e + 1)"
    using floor_log_eq_powr_iff[of x 2 e] xpos by (simp_all add: e_def)
  have "2 powr (- 1022) < 2 powr real_of_int (e + 1)" using lo e(2) by linarith
  then have "- 1022 < real_of_int (e + 1)" by (simp only: powr_less_cancel_iff) 
  then have elo: "- 1022 \<le> e" by linarith
  have ex: "expo x = e" using elo e xpos by (intro expo_eqI) simp_all
  let ?q = "2 powr real_of_int (e - 52)"
  have q: "0 < ?q" by simp
  have u: "ulp x = ?q" by (simp add: ulp_def ex)
  define y where "y = real_of_int (rne (x / ?q)) * ?q"
  have c: "\<bar>real_of_int (rne (x / ?q)) - x / ?q\<bar> \<le> 1 / 2" by (rule rne_close)
  have "y - x = (real_of_int (rne (x / ?q)) - x / ?q) * ?q"
    using q by (simp add: y_def left_diff_distrib)
  then have "\<bar>y - x\<bar> = \<bar>real_of_int (rne (x / ?q)) - x / ?q\<bar> * ?q"
    using q by (simp add: abs_mult)
  also have "\<dots> \<le> 1 / 2 * ?q"
    using c q by (intro mult_right_mono) auto
  finally have d: "\<bar>y - x\<bar> \<le> ?q / 2" by simp
  have "?q / 2 = 2 powr real_of_int e * unit_roundoff"
  proof -
    have "real_of_int (e - 52) = real_of_int e + (- 52)" by simp
    then have "?q = 2 powr real_of_int e * 2 powr (- 52)" by (simp only: powr_add)
    then show ?thesis by (simp add: unit_roundoff_def powr_neg_numeral)
  qed
  also have "\<dots> \<le> x * unit_roundoff"
    using e(1) by (intro mult_right_mono) (auto simp: unit_roundoff_def)
  finally have qx: "?q / 2 \<le> x * unit_roundoff" .
  from d qx have "\<bar>y - x\<bar> \<le> x * unit_roundoff" by linarith
  then have b: "x * (1 - unit_roundoff) \<le> y" "y \<le> x * (1 + unit_roundoff)"
    by (simp_all add: right_diff_distrib distrib_left abs_le_iff)
  have "2 powr 52 = real_of_int (2 ^ 52)" by simp
  also have "\<dots> \<le> real_of_int (rne (x / ?q))"
  proof -
    have "2 powr real_of_int e / ?q \<le> x / ?q" using e(1) q by (simp add: divide_right_mono)
    moreover have "2 powr real_of_int e / ?q = 2 powr 52"
      by (simp add: powr_diff [symmetric])
    ultimately have "real_of_int (2 ^ 52) \<le> x / ?q" by simp
    then have "2 ^ 52 \<le> rne (x / ?q)" by (rule rne_ge_int)
    then show ?thesis by (simp only: of_int_le_iff)
  qed
  finally have "2 powr 52 * ?q \<le> y" using q by (simp add: y_def)
  moreover have "2 powr 52 * ?q = 2 powr real_of_int e"
  proof -
    have "52 + real_of_int (e - 52) = real_of_int e" by simp
    then show ?thesis by (simp only: powr_add [symmetric])
  qed
  ultimately have ye: "2 powr real_of_int e \<le> y" by linarith
  have ylo: "2 powr real_of_int k \<le> y" if "2 powr real_of_int k \<le> x" for k
  proof -
    from that e(2) have "2 powr real_of_int k < 2 powr real_of_int (e + 1)" by linarith
    then have "real_of_int k < real_of_int (e + 1)" by (simp only: powr_less_cancel_iff)
    then have "k \<le> e" by linarith
    then have "2 powr real_of_int k \<le> 2 powr real_of_int e" by (intro powr_mono) auto
    with ye show ?thesis by linarith
  qed
  have "y \<le> 2 powr 1023 * (1 + unit_roundoff)"
  proof -
    have "x * (1 + unit_roundoff) \<le> 2 powr 1023 * (1 + unit_roundoff)"
      using hi by (intro mult_right_mono) (simp_all add: unit_roundoff_def)
    with b(2) show ?thesis by linarith
  qed
  also have "\<dots> < 2 ^ 1024" by (simp add: unit_roundoff_def)
  finally have "y < 2 ^ 1024" .
  moreover have "0 < y"
  proof -
    have "0 < (2::real) powr real_of_int e" by simp
    with ye show ?thesis by linarith
  qed
  ultimately have "\<not> 2 ^ 1024 \<le> \<bar>y\<bar>" by simp
  then have "fl x = Finite y"
    using xpos by (simp add: fl_def u y_def Let_def)
  with b ylo show ?thesis by blast
qed

lemma roundoff_bounds:
  "0 < unit_roundoff" "unit_roundoff < 1" "0 < 1 - unit_roundoff" "1 - unit_roundoff \<le> 1"
  "1 \<le> 1 + unit_roundoff"
  by (simp_all add: unit_roundoff_def)

lemma fl_interval:
  assumes good: "x = 0 \<or> 2 powr (- 1022) \<le> x" and top: "x \<le> 2 powr 1023"
    and a: "0 \<le> a" "a \<le> x" and b: "x \<le> b"
  shows "\<exists>y. fl x = Finite y \<and> a * (1 - unit_roundoff) \<le> y \<and> y \<le> b * (1 + unit_roundoff)
           \<and> (x = 0 \<longrightarrow> y = 0)
           \<and> (\<forall>k. 2 powr real_of_int k \<le> x \<longrightarrow> 2 powr real_of_int k \<le> y)"
proof (cases "x = 0")
  case True
  with a have "a = 0" by simp
  moreover have "0 \<le> b * (1 + unit_roundoff)"
    using b True roundoff_bounds by simp
  moreover have "\<not> 2 powr real_of_int k \<le> (0::real)" for k by simp
  ultimately show ?thesis using True by simp
next
  case False
  with good have "2 powr (- 1022) \<le> x" by simp
  from fl_rel[OF this top] obtain y where y: "fl x = Finite y"
    "x * (1 - unit_roundoff) \<le> y" "y \<le> x * (1 + unit_roundoff)"
    "\<forall>k. 2 powr real_of_int k \<le> x \<longrightarrow> 2 powr real_of_int k \<le> y"
    by blast
  have "a * (1 - unit_roundoff) \<le> x * (1 - unit_roundoff)"
    using a(2) roundoff_bounds(3) by (intro mult_right_mono) auto
  moreover have "x * (1 + unit_roundoff) \<le> b * (1 + unit_roundoff)"
    using b roundoff_bounds(1) by (intro mult_right_mono) auto
  ultimately show ?thesis using y False by (intro exI[of _ y]) auto
qed

lemma two_powr_nat: "2 powr real_of_int (int k) = (2::real) ^ k"
  using powr_realpow[of 2 k] by simp

lemma two_powr_neg_nat: "2 powr (- real k) = 1 / (2::real) ^ k"
  using powr_realpow[of 2 k] by (simp add: powr_minus divide_inverse)

lemma fl_binade_nat:
  assumes "e \<le> 52" "2 ^ e \<le> n" "n < 2 ^ (e + 1)"
  shows "fl (real n) = Finite (real n)"
proof -
  have "real (2 ^ e) \<le> real n" using assms(2) by (simp only: of_nat_le_iff)
  then have a: "2 powr real_of_int (int e) \<le> \<bar>real n\<bar>"
    unfolding two_powr_nat by simp
  have "real n < real (2 ^ (e + 1))" using assms(3) by (simp only: of_nat_less_iff)
  then have "\<bar>real n\<bar> < 2 powr real_of_int (int (e + 1))"
    unfolding two_powr_nat by simp
  moreover have "int (e + 1) = int e + 1" by simp
  ultimately have b: "\<bar>real n\<bar> < 2 powr real_of_int (int e + 1)"
    by (simp only:)
  have "real_of_int (int e - 52) = - real (52 - e)" using assms(1) by simp
  then have q: "2 powr real_of_int (int e - 52) = 1 / 2 ^ (52 - e)"
    by (simp only: two_powr_neg_nat)
  have c: "\<bar>real n / 2 powr real_of_int (int e - 52) - real_of_int (int n * 2 ^ (52 - e))\<bar> < 1 / 2"
    unfolding q by simp
  have "fl (real n) = Finite (real_of_int (int n * 2 ^ (52 - e)) * 2 powr real_of_int (int e - 52))"
    using assms(1) a b c by (intro fl_eqI) auto
  then show ?thesis unfolding q by simp
qed

lemma fl_small: "n \<le> 15 \<Longrightarrow> fl (real n) = Finite (real n)"
proof -
  assume n: "n \<le> 15"
  consider "n = 0" | "2 ^ 0 \<le> n \<and> n < 2 ^ (0 + 1)" | "2 ^ 1 \<le> n \<and> n < 2 ^ (1 + 1)"
    | "2 ^ 2 \<le> n \<and> n < 2 ^ (2 + 1)" | "2 ^ 3 \<le> n \<and> n < 2 ^ (3 + 1)"
    using n by (simp; linarith)
  then show ?thesis
  proof cases
    case 1
    then show ?thesis by simp
  next
    case 2
    then show ?thesis using fl_binade_nat[of 0 n] by simp
  next
    case 3
    then show ?thesis using fl_binade_nat[of 1 n] by simp
  next
    case 4
    then show ?thesis using fl_binade_nat[of 2 n] by simp
  next
    case 5
    then show ?thesis using fl_binade_nat[of 3 n] by simp
  qed
qed

lemma range_facts:
  "2 powr (- 1022) \<le> (2::real) powr (- 1000)"
  "(2::real) powr 1000 * 32 \<le> 2 powr 1023"
  "2 powr (- 1022) \<le> (2::real) powr (- 1000) / 15"
  "(1 + unit_roundoff) ^ 7 \<le> 2"
  "(1 + unit_roundoff) ^ 7 \<le> 1 + 1 / 2 ^ 50"
  "1 - 1 / 2 ^ 50 \<le> (1 - unit_roundoff) ^ 7"
  by (simp_all add: unit_roundoff_def powr_neg_numeral power_divide)

lemma good_nonneg:
  assumes "s = 0 \<or> (2::real) powr a \<le> s"
  shows "0 \<le> s"
proof (cases "s = 0")
  case False
  with assms have "2 powr a \<le> s" by simp
  moreover have "0 < (2::real) powr a" by simp
  ultimately show ?thesis by linarith
qed simp

lemma good_add:
  assumes "s = 0 \<or> (2::real) powr a \<le> s" "p = 0 \<or> 2 powr a \<le> p"
  shows "s + p = 0 \<or> 2 powr a \<le> s + p"
proof (cases "s = 0")
  case True
  with assms(2) show ?thesis by simp
next
  case False
  with assms(1) have "2 powr a \<le> s" by simp
  with good_nonneg[OF assms(2)] have "2 powr a \<le> s + p" by linarith
  then show ?thesis ..
qed

section \<open>Lemmas on smoothSpeed in doubles\<close>

lemma num_add_NaN [simp]: "num_add a NaN = NaN"
  by (cases a) simp_all

lemma num_mul_NaN [simp]: "num_mul a NaN = NaN"
  by (cases a) simp_all

lemma num_div_NaN [simp]: "num_div a NaN = NaN"
  by (cases a) simp_all

lemma Math_max_NaN [simp]: "Math_max a NaN = NaN"
  by (cases a) simp_all

lemma weighD_foldl:
  "weighD xs i (ws, tw) =
     (foldl num_add ws (map (\<lambda>k. num_mul (xs ! k) (Finite (real (i + k + 1)))) [0..<length xs]),
      foldl num_add tw (map (\<lambda>k. Finite (real (i + k + 1))) [0..<length xs]))"
proof (induction xs arbitrary: i ws tw)
  case Nil
  then show ?case by simp
next
  case (Cons x xs)
  show ?case
    by (simp add: Cons.IH Let_def upt_conv_Cons map_Suc_upt [symmetric] o_def add_ac
        del: upt_Suc)
qed

lemma smoothD_eq: "fst (smoothSpeedD v h) = weighted_averageD (pushShift v h)"
  by (simp add: smoothSpeedD_def weighted_averageD_def sumD_def weighD_foldl Let_def
      split: prod.splits)

lemma snd_smoothD: "snd (smoothSpeedD v h) = pushShift v h"
  by (simp add: smoothSpeedD_def Let_def split: prod.splits)

lemma weighD_totalWeight:
  "T + (\<Sum>k<length xs. i + k + 1) \<le> 15 \<Longrightarrow>
   snd (weighD xs i (ws, Finite (real T))) = Finite (real (T + (\<Sum>k<length xs. i + k + 1)))"
proof (induction xs arbitrary: i T ws)
  case Nil
  then show ?case by simp
next
  case (Cons x xs)
  have split: "(\<Sum>k<length (x # xs). i + k + 1) = (i + 1) + (\<Sum>k<length xs. (i + 1) + k + 1)"
    by (simp add: sum.lessThan_Suc_shift del: sum.lessThan_Suc)
  with Cons.prems have le: "T + (i + 1) \<le> 15" "(T + (i + 1)) + (\<Sum>k<length xs. (i + 1) + k + 1) \<le> 15"
    by linarith+
  have "real T + real (i + 1) = real (T + (i + 1))" by simp
  then have tw: "num_add (Finite (real T)) (Finite (real (i + 1))) = Finite (real (T + (i + 1)))"
    using fl_small[OF le(1)] by (simp only: num_add.simps)
  show ?case
    using Cons.IH[OF le(2)] unfolding split
    by (simp only: weighD.simps Let_def tw) (simp add: add.assoc)
qed

lemma nonnegative_add: "nonnegative a \<Longrightarrow> nonnegative b \<Longrightarrow> nonnegative (num_add a b)"
proof (cases a; cases b)
  fix x y assume "a = Finite x" "b = Finite y" "nonnegative a" "nonnegative b"
  then show ?thesis using fl_nonneg[of "x + y"] by auto
qed simp_all

lemma nonnegative_mul:
  "nonnegative a \<Longrightarrow> 0 < w \<Longrightarrow> nonnegative (num_mul a (Finite w))"
proof (cases a)
  case (Finite x)
  assume "nonnegative a" "0 < w"
  with Finite show ?thesis using fl_nonneg[of "x * w"] by auto
qed (simp_all add: inf_of_def)

lemma nonnegative_div:
  "nonnegative a \<Longrightarrow> 0 < t \<Longrightarrow> nonnegative (num_div a (Finite t))"
proof (cases a)
  case (Finite x)
  assume "nonnegative a" "0 < t"
  with Finite show ?thesis using fl_nonneg[of "x / t"] by auto
qed (simp_all add: inf_of_def)

lemma weighD_nonnegative:
  "\<forall>x \<in> set xs. nonnegative x \<Longrightarrow> nonnegative ws \<Longrightarrow>
   nonnegative (fst (weighD xs i (ws, tw)))"
proof (induction xs arbitrary: i ws tw)
  case Nil
  then show ?case by simp
next
  case (Cons x xs)
  have "nonnegative (num_add ws (num_mul x (Finite (real (i + 1)))))"
    using Cons.prems by (intro nonnegative_add nonnegative_mul) auto
  then show ?case
    using Cons.prems by (simp add: Let_def Cons.IH)
qed

lemma weighD_bounds:
  fixes lo hi :: real
  assumes lohi: "0 \<le> lo" "lo \<le> hi" "hi \<le> 2 powr 1000"
  shows "\<lbrakk>\<forall>x \<in> set xs. \<exists>r. x = Finite r \<and> lo \<le> r \<and> r \<le> hi \<and> (r = 0 \<or> 2 powr (- 1000) \<le> r);
          T + (\<Sum>k<length xs. i + k + 1) \<le> 15; 1 \<le> j; j + length xs \<le> 7;
          s = 0 \<or> 2 powr (- 1000) \<le> s;
          lo * real T * (1 - unit_roundoff) ^ j \<le> s;
          s \<le> hi * real T * (1 + unit_roundoff) ^ j\<rbrakk> \<Longrightarrow>
         \<exists>s'. weighD xs i (Finite s, Finite (real T))
                = (Finite s', Finite (real (T + (\<Sum>k<length xs. i + k + 1)))) \<and>
              (s' = 0 \<or> 2 powr (- 1000) \<le> s') \<and>
              lo * real (T + (\<Sum>k<length xs. i + k + 1)) * (1 - unit_roundoff) ^ (j + length xs) \<le> s' \<and>
              s' \<le> hi * real (T + (\<Sum>k<length xs. i + k + 1)) * (1 + unit_roundoff) ^ (j + length xs)"
proof (induction xs arbitrary: i T j s)
  case Nil
  then show ?case by simp
next
  case (Cons x xs)
  let ?L = "1 - unit_roundoff" and ?U = "1 + unit_roundoff"
  let ?c = "(2::real) powr (- 1000)"
  have L: "0 < ?L" "?L \<le> 1" and U: "1 \<le> ?U" using roundoff_bounds by simp_all
  have hi0: "0 \<le> hi" using lohi by simp
  have cpos: "0 < ?c" by simp
  have ck: "?c = 2 powr real_of_int (- 1000)" by simp
  have split: "(\<Sum>k<length (x # xs). i + k + 1) = (i + 1) + (\<Sum>k<length xs. (i + 1) + k + 1)"
    by (simp add: sum.lessThan_Suc_shift del: sum.lessThan_Suc)
  with Cons.prems(2) have le: "T + (i + 1) \<le> 15"
    "(T + (i + 1)) + (\<Sum>k<length xs. (i + 1) + k + 1) \<le> 15"
    by linarith+
  define w where "w = real (i + 1)"
  have w: "1 \<le> w" "w \<le> 15" and Tw: "real T + w \<le> 15" "0 \<le> real T"
    using le(1) by (simp_all add: w_def)
  from Cons.prems(1) obtain r where r: "x = Finite r" "lo \<le> r" "r \<le> hi" "r = 0 \<or> ?c \<le> r"
    by auto
  have r0: "0 \<le> r" using r(2) lohi(1) by simp
  have s0: "0 \<le> s" using Cons.prems(5) by (rule good_nonneg)
  \<comment> \<open>the product\<close>
  have pgood: "r * w = 0 \<or> 2 powr (- 1022) \<le> r * w"
  proof (cases "r = 0")
    case False
    with r(4) have "?c \<le> r" by simp
    also have "r \<le> r * w" using r0 w(1) by (simp add: mult_le_cancel_left1)
    finally show ?thesis using range_facts(1) by linarith
  qed simp
  have "r * w \<le> hi * 15" using r(3) w r0 hi0 by (intro mult_mono) auto
  also have "\<dots> \<le> 2 powr 1000 * 32" using lohi(3) by simp
  finally have ptop: "r * w \<le> 2 powr 1023" using range_facts(2) by linarith
  have pa: "0 \<le> lo * w" "lo * w \<le> r * w" and pb: "r * w \<le> hi * w"
    using lohi(1) r(2,3) w(1) by (simp_all add: mult_right_mono)
  from fl_interval[OF pgood ptop pa pb] obtain p where p: "fl (r * w) = Finite p"
    "lo * w * ?L \<le> p" "p \<le> hi * w * ?U"
    "r * w = 0 \<longrightarrow> p = 0"
    "\<forall>k. 2 powr real_of_int k \<le> r * w \<longrightarrow> 2 powr real_of_int k \<le> p"
    by blast
  have pgood': "p = 0 \<or> ?c \<le> p"
  proof (cases "r = 0")
    case True
    then have "p = 0" using p(4) by simp
    then show ?thesis by simp
  next
    case False
    with r(4) have "?c \<le> r" by simp
    also have "r \<le> r * w" using r0 w(1) by (simp add: mult_le_cancel_left1)
    finally have "2 powr real_of_int (- 1000) \<le> r * w" by simp
    then have "2 powr real_of_int (- 1000) \<le> p" using p(5) by blast
    then show ?thesis by simp
  qed
  have p0: "0 \<le> p" using pgood' by (rule good_nonneg)
  \<comment> \<open>the sum\<close>
  have Uj: "?U \<le> ?U ^ j" using U Cons.prems(3) by (metis power_increasing power_one_right)
  have Lj: "?L ^ j \<le> ?L" using L Cons.prems(3) by (metis less_imp_le power_decreasing power_one_right)
  have Uj7: "?U ^ j \<le> 2"
  proof -
    have "j \<le> 7" using Cons.prems(4) by simp
    then have "?U ^ j \<le> ?U ^ 7" using U by (intro power_increasing) auto
    with range_facts(4) show ?thesis by linarith
  qed
  have Uj0: "0 \<le> ?U ^ j" and Lj0: "0 \<le> ?L ^ j" using U L by simp_all
  have zlo: "lo * (real T + w) * ?L ^ j \<le> s + p"
  proof -
    have "lo * w * ?L ^ j \<le> lo * w * ?L"
      using Lj lohi(1) w(1) by (intro mult_left_mono) auto
    with p(2) Cons.prems(6) show ?thesis by (simp add: algebra_simps)
  qed
  have zhi: "s + p \<le> hi * (real T + w) * ?U ^ j"
  proof -
    have "hi * w * ?U \<le> hi * w * ?U ^ j"
      using Uj hi0 w(1) by (intro mult_left_mono) auto
    with p(3) Cons.prems(7) show ?thesis by (simp add: algebra_simps)
  qed
  have zgood': "s + p = 0 \<or> ?c \<le> s + p"
    using Cons.prems(5) pgood' by (rule good_add)
  then have zgood: "s + p = 0 \<or> 2 powr (- 1022) \<le> s + p"
    using range_facts(1) by (elim disjE) (simp, linarith)
  have "hi * (real T + w) * ?U ^ j \<le> 2 powr 1000 * 15 * 2"
    using lohi(3) hi0 Tw Uj7 Uj0 w(1) by (intro mult_mono) auto
  moreover have "0 \<le> (2::real) powr 1000" by simp
  ultimately have ztop: "s + p \<le> 2 powr 1023" using zhi range_facts(2) by linarith
  have za: "0 \<le> lo * (real T + w) * ?L ^ j"
    using lohi(1) Tw(2) w(1) Lj0 by simp
  from fl_interval[OF zgood ztop za zlo zhi] obtain s2 where s2: "fl (s + p) = Finite s2"
    "lo * (real T + w) * ?L ^ j * ?L \<le> s2" "s2 \<le> hi * (real T + w) * ?U ^ j * ?U"
    "s + p = 0 \<longrightarrow> s2 = 0"
    "\<forall>k. 2 powr real_of_int k \<le> s + p \<longrightarrow> 2 powr real_of_int k \<le> s2"
    by blast
  have s2good: "s2 = 0 \<or> ?c \<le> s2"
  proof (cases "s + p = 0")
    case True
    then have "s2 = 0" using s2(4) by simp
    then show ?thesis by simp
  next
    case False
    then have "?c \<le> s + p" using zgood' by simp
    then have "2 powr real_of_int (- 1000) \<le> s + p" by simp
    with s2(5) have "2 powr real_of_int (- 1000) \<le> s2" by blast
    then show ?thesis by simp
  qed
  \<comment> \<open>the total weight and the rest of the loop\<close>
  have "real T + real (i + 1) = real (T + (i + 1))" by simp
  then have tw: "fl (real T + real (i + 1)) = Finite (real (T + (i + 1)))"
    using fl_small[OF le(1)] by (simp only:)
  have step: "weighD (x # xs) i (Finite s, Finite (real T))
      = weighD xs (i + 1) (Finite s2, Finite (real (T + (i + 1))))"
    using p(1) s2(1) by (simp only: weighD.simps Let_def tw r(1) num_mul.simps num_add.simps w_def)
  have Tw': "real (T + (i + 1)) = real T + w" by (simp add: w_def)
  have b1: "lo * real (T + (i + 1)) * ?L ^ (j + 1) \<le> s2"
    unfolding Tw' power_add power_one_right using s2(2) by (simp only: mult.assoc)
  have b2: "s2 \<le> hi * real (T + (i + 1)) * ?U ^ (j + 1)"
    unfolding Tw' power_add power_one_right using s2(3) by (simp only: mult.assoc)
  have l: "\<forall>x \<in> set xs. \<exists>r. x = Finite r \<and> lo \<le> r \<and> r \<le> hi \<and> (r = 0 \<or> 2 powr (- 1000) \<le> r)"
    using Cons.prems(1) by simp
  have j1: "1 \<le> j + 1" "(j + 1) + length xs \<le> 7" using Cons.prems(4) by simp_all
  from Cons.IH[OF l le(2) j1 s2good b1 b2] obtain s' where s':
    "weighD xs (i + 1) (Finite s2, Finite (real (T + (i + 1))))
       = (Finite s', Finite (real (T + (i + 1) + (\<Sum>k<length xs. i + 1 + k + 1))))"
    "s' = 0 \<or> ?c \<le> s'"
    "lo * real (T + (i + 1) + (\<Sum>k<length xs. i + 1 + k + 1)) * ?L ^ (j + 1 + length xs) \<le> s'"
    "s' \<le> hi * real (T + (i + 1) + (\<Sum>k<length xs. i + 1 + k + 1)) * ?U ^ (j + 1 + length xs)"
    by blast
  have e1: "T + (\<Sum>k<length (x # xs). i + k + 1) = T + (i + 1) + (\<Sum>k<length xs. i + 1 + k + 1)"
    unfolding split by simp
  have e2: "j + length (x # xs) = j + 1 + length xs" by simp
  show ?case
    unfolding e1 e2 step using s' by blast
qed

lemma weights_le_15:
  assumes "n \<le> 5"
  shows "(\<Sum>k<n. 0 + k + 1) \<le> (15::nat)"
proof -
  have "n \<in> {0, 1, 2, 3, 4, 5}" using assms by auto
  then show ?thesis by (auto simp: eval_nat_numeral)
qed

lemma weights_ge_1: "0 < n \<Longrightarrow> 1 \<le> (\<Sum>k<n. 0 + k + 1 :: nat)"
proof -
  assume "0 < n"
  then have "0 \<in> {..<n}" by simp
  then have "(0 + 0 + 1 :: nat) \<le> (\<Sum>k<n. 0 + k + 1)"
    by (intro member_le_sum) auto
  then show ?thesis by simp
qed

lemma length_pushShift: "length h \<le> 5 \<Longrightarrow> 0 < length (pushShift v h) \<and> length (pushShift v h) \<le> 5"
  using pushShift_nonempty[of v h] by (simp add: pushShift_drop)

lemma smoothSpeedD_bounds:
  fixes lo hi :: real
  assumes lohi: "0 \<le> lo" "lo \<le> hi" "hi \<le> 2 powr 1000"
    and len: "length h \<le> 5"
    and ent: "\<forall>x \<in> set (pushShift v h).
                \<exists>r. x = Finite r \<and> lo \<le> r \<and> r \<le> hi \<and> (r = 0 \<or> 2 powr (- 1000) \<le> r)"
  shows "\<exists>r. fst (smoothSpeedD v h) = Finite r \<and>
             lo * (1 - 1 / 2 ^ 50) \<le> r \<and> r \<le> hi * (1 + 1 / 2 ^ 50)"
proof -
  let ?L = "1 - unit_roundoff" and ?U = "1 + unit_roundoff"
  let ?w = "pushShift v h"
  define n where "n = length ?w"
  define W where "W = (\<Sum>k<n. 0 + k + 1 :: nat)"
  have n: "0 < n" "n \<le> 5" using length_pushShift[OF len] by (simp_all add: n_def)
  have W: "1 \<le> W" "W \<le> 15" using weights_ge_1[OF n(1)] weights_le_15[OF n(2)] by (simp_all add: W_def)
  have L: "0 < ?L" "?L \<le> 1" and U: "1 \<le> ?U" using roundoff_bounds by simp_all
  have hi0: "0 \<le> hi" using lohi by simp
  have "\<exists>s'. weighD ?w 0 (Finite 0, Finite (real 0))
                = (Finite s', Finite (real (0 + (\<Sum>k<length ?w. 0 + k + 1)))) \<and>
              (s' = 0 \<or> 2 powr (- 1000) \<le> s') \<and>
              lo * real (0 + (\<Sum>k<length ?w. 0 + k + 1)) * ?L ^ (1 + length ?w) \<le> s' \<and>
              s' \<le> hi * real (0 + (\<Sum>k<length ?w. 0 + k + 1)) * ?U ^ (1 + length ?w)"
    using W(2) n(2) by (intro weighD_bounds[OF lohi ent]) (simp_all add: W_def n_def)
  then obtain s' where s': "weighD ?w 0 (Finite 0, Finite 0) = (Finite s', Finite (real W))"
    "s' = 0 \<or> 2 powr (- 1000) \<le> s'"
    "lo * real W * ?L ^ (1 + n) \<le> s'" "s' \<le> hi * real W * ?U ^ (1 + n)"
    by (auto simp: W_def n_def)
  have Wr: "1 \<le> real W" "real W \<le> 15" using W by simp_all
  have res: "fst (smoothSpeedD v h) = fl (s' / real W)"
    using s'(1) Wr(1) by (simp add: smoothSpeedD_def Let_def)
  have Wpos: "0 < real W" using Wr(1) by linarith
  have "lo * real W * ?L ^ (1 + n) = (lo * ?L ^ (1 + n)) * real W"
    by (simp only: ac_simps)
  with s'(3) have xlo: "lo * ?L ^ (1 + n) \<le> s' / real W"
    by (simp only: pos_le_divide_eq[OF Wpos])
  have "hi * real W * ?U ^ (1 + n) = (hi * ?U ^ (1 + n)) * real W"
    by (simp only: ac_simps)
  with s'(4) have xhi: "s' / real W \<le> hi * ?U ^ (1 + n)"
    by (simp only: pos_divide_le_eq[OF Wpos])
  have xgood: "s' / real W = 0 \<or> 2 powr (- 1022) \<le> s' / real W"
  proof (cases "s' = 0")
    case False
    with s'(2) have c: "2 powr (- 1000) \<le> s'" by simp
    have "2 powr (- 1000) / 15 \<le> s' / 15" using c by (simp add: divide_right_mono)
    also have "\<dots> \<le> s' / real W"
      using Wr good_nonneg[OF s'(2)] by (intro divide_left_mono) auto
    finally show ?thesis using range_facts(3) by linarith
  qed simp
  have Un: "?U ^ (1 + n) \<le> 2"
  proof -
    have "?U ^ (1 + n) \<le> ?U ^ 7" using U n(2) by (intro power_increasing) auto
    with range_facts(4) show ?thesis by linarith
  qed
  have "hi * ?U ^ (1 + n) \<le> 2 powr 1000 * 2"
    using lohi(3) hi0 Un U by (intro mult_mono) auto
  moreover have "0 \<le> (2::real) powr 1000" by simp
  ultimately have xtop: "s' / real W \<le> 2 powr 1023"
    using xhi range_facts(2) by linarith
  have xa: "0 \<le> lo * ?L ^ (1 + n)" using lohi(1) L by simp
  from fl_interval[OF xgood xtop xa xlo xhi] obtain r where r:
    "fl (s' / real W) = Finite r" "lo * ?L ^ (1 + n) * ?L \<le> r" "r \<le> hi * ?U ^ (1 + n) * ?U"
    by blast
  have "?L ^ 7 \<le> ?L ^ (1 + n) * ?L"
  proof -
    have "?L ^ 7 \<le> ?L ^ (Suc (1 + n))" using L n(2) by (intro power_decreasing) auto
    then show ?thesis by (simp add: mult.commute)
  qed
  with range_facts(6) have "1 - 1 / 2 ^ 50 \<le> ?L ^ (1 + n) * ?L" by linarith
  then have "lo * (1 - 1 / 2 ^ 50) \<le> lo * (?L ^ (1 + n) * ?L)"
    using lohi(1) by (intro mult_left_mono) auto
  moreover have "lo * (?L ^ (1 + n) * ?L) = lo * ?L ^ (1 + n) * ?L" by (simp only: mult.assoc)
  ultimately have rlo: "lo * (1 - 1 / 2 ^ 50) \<le> r" using r(2) by linarith
  have "?U ^ (1 + n) * ?U \<le> ?U ^ 7"
  proof -
    have "?U ^ (Suc (1 + n)) \<le> ?U ^ 7" using U n(2) by (intro power_increasing) auto
    then show ?thesis by (simp add: mult.commute)
  qed
  with range_facts(5) have "?U ^ (1 + n) * ?U \<le> 1 + 1 / 2 ^ 50" by linarith
  then have "hi * (?U ^ (1 + n) * ?U) \<le> hi * (1 + 1 / 2 ^ 50)"
    using hi0 by (intro mult_left_mono) auto
  moreover have "hi * (?U ^ (1 + n) * ?U) = hi * ?U ^ (1 + n) * ?U" by (simp only: mult.assoc)
  ultimately have rhi: "r \<le> hi * (1 + 1 / 2 ^ 50)" using r(3) by linarith
  from res r(1) rlo rhi show ?thesis by simp
qed

lemma totalWeight_exact:
  assumes "length h \<le> 5"
  shows "\<exists>W. snd (weighD (pushShift v h) 0 (Finite 0, Finite 0)) = Finite (real W) \<and> 1 \<le> W \<and> W \<le> 15"
proof -
  let ?w = "pushShift v h"
  have n: "0 < length ?w" "length ?w \<le> 5" using length_pushShift[OF assms] by simp_all
  have le: "0 + (\<Sum>k<length ?w. 0 + k + 1) \<le> (15::nat)"
    using weights_le_15[OF n(2)] by simp
  have "snd (weighD ?w 0 (Finite 0, Finite (real 0)))
      = Finite (real (0 + (\<Sum>k<length ?w. 0 + k + 1)))"
    using le by (rule weighD_totalWeight)
  with weights_ge_1[OF n(1)] le show ?thesis
    by (intro exI[of _ "\<Sum>k<length ?w. 0 + k + 1"]) simp
qed

lemma smoothSpeedD_nonnegative:
  assumes "length h \<le> 5" "\<forall>x \<in> set (pushShift v h). nonnegative x"
  shows "nonnegative (fst (smoothSpeedD v h))"
proof -
  obtain W where W: "snd (weighD (pushShift v h) 0 (Finite 0, Finite 0)) = Finite (real W)" "1 \<le> W"
    using totalWeight_exact[OF assms(1)] by blast
  have "nonnegative (fst (weighD (pushShift v h) 0 (Finite 0, Finite 0)))"
    using assms(2) by (intro weighD_nonnegative) auto
  moreover have "0 < real W" using W(2) by simp
  ultimately have "nonnegative (num_div (fst (weighD (pushShift v h) 0 (Finite 0, Finite 0))) (Finite (real W)))"
    by (rule nonnegative_div)
  then show ?thesis
    using W(1) by (auto simp: smoothSpeedD_def Let_def split: prod.splits)
qed

lemma pushesD_drop:
  "length h \<le> 5 \<Longrightarrow> pushesD vs h = drop (length h + length vs - 5) (h @ vs)"
proof (induction vs arbitrary: h)
  case Nil
  then show ?case by simp
next
  case (Cons v vs)
  have len: "length (pushShift v h) \<le> 5"
    using Cons.prems by (simp add: pushShift_drop)
  show ?case
  proof (cases "length h = 5")
    case True
    then obtain a t where h: "h = a # t" and t: "length t = 4"
      by (cases h) auto
    have ps: "pushShift v h = t @ [v]"
      using t by (simp add: h pushShift_def Let_def)
    have "pushesD (v # vs) h = pushesD vs (t @ [v])"
      by (simp add: snd_smoothD ps)
    also have "\<dots> = drop (length vs) ((t @ [v]) @ vs)"
      using Cons.IH[of "t @ [v]"] t by simp
    also have "\<dots> = drop (length h + length (v # vs) - 5) (h @ v # vs)"
      using t by (simp add: h)
    finally show ?thesis .
  next
    case False
    with Cons.prems have "pushShift v h = h @ [v]"
      by (auto simp: pushShift_def Let_def)
    with False Cons.prems Cons.IH[OF len] show ?thesis
      by (auto simp: snd_smoothD)
  qed
qed

lemma pushesD_append: "pushesD (xs @ ys) h = pushesD ys (pushesD xs h)"
  by (induction xs arbitrary: h) auto

lemma pushesD_replicate:
  assumes "length h \<le> 5" "5 \<le> m"
  shows "pushesD (replicate m v) h = replicate 5 v"
proof -
  have "pushesD (replicate m v) h = drop (length h + m - 5) (h @ replicate m v)"
    using assms(1) pushesD_drop[of h "replicate m v"] by (simp only: length_replicate)
  also have "\<dots> = drop (m - 5) (replicate m v)"
    using assms by simp
  also have "\<dots> = replicate 5 v"
    using assms(2) by simp
  finally show ?thesis .
qed

lemma pushesD_constant:
  assumes "length h \<le> 5" "4 \<le> n"
  shows "pushShift v (pushesD (replicate n v) h) = replicate 5 v"
proof -
  have "pushShift v (pushesD (replicate n v) h) = pushesD (replicate n v @ [v]) h"
    by (simp add: pushesD_append snd_smoothD)
  also have "\<dots> = pushesD (replicate (Suc n) v) h"
    by (simp only: replicate_append_same replicate_Suc)
  also have "\<dots> = replicate 5 v"
    using assms by (intro pushesD_replicate) auto
  finally show ?thesis .
qed

lemma length_pushesD: "length h \<le> 5 \<Longrightarrow> length (pushesD vs h) \<le> 5"
  by (simp add: pushesD_drop)

section \<open>Computations in doubles\<close>

text \<open>
  The values of the code at given inputs, each operation evaluated with \<open>fl_eqI\<close>.
\<close>

lemma tenth_pushed_twice:
  "fst (smoothSpeedD (fl 0.1) [fl 0.1]) = fl 0.10000000000000002"
  "fl 0.1 = Finite (3602879701896397 / 36028797018963968)"
  "fl 0.10000000000000002 = Finite (7205759403792795 / 72057594037927936)"
proof -
  have v: "fl 0.1 = Finite (3602879701896397 / 36028797018963968)"
    using fl_eqI[of "- 4" "0.1" "7205759403792794"] by (simp add: powr_neg_numeral)
  have b: "fl 0.10000000000000002 = Finite (7205759403792795 / 72057594037927936)"
    using fl_eqI[of "- 4" "0.10000000000000002" "7205759403792795"] by (simp add: powr_neg_numeral)
  have ap0: "num_mul (Finite (3602879701896397 / 36028797018963968)) (Finite (1)) = Finite (3602879701896397 / 36028797018963968)"
    using fl_eqI[of "- 4" "(3602879701896397 / 36028797018963968) * (1)" "7205759403792794"] by (simp add: powr_neg_numeral)
  have as0: "num_add (Finite (0)) (Finite (3602879701896397 / 36028797018963968)) = Finite (3602879701896397 / 36028797018963968)"
    using fl_eqI[of "- 4" "(0) + (3602879701896397 / 36028797018963968)" "7205759403792794"] by (simp add: powr_neg_numeral)
  have at0: "num_add (Finite (0)) (Finite (1)) = Finite (1)"
    using fl_eqI[of "0" "(0) + (1)" "4503599627370496"] by (simp add: powr_neg_numeral)
  have ap1: "num_mul (Finite (3602879701896397 / 36028797018963968)) (Finite (2)) = Finite (3602879701896397 / 18014398509481984)"
    using fl_eqI[of "- 3" "(3602879701896397 / 36028797018963968) * (2)" "7205759403792794"] by (simp add: powr_neg_numeral)
  have as1: "num_add (Finite (3602879701896397 / 36028797018963968)) (Finite (3602879701896397 / 18014398509481984)) = Finite (1351079888211149 / 4503599627370496)"
    using fl_eqI[of "- 2" "(3602879701896397 / 36028797018963968) + (3602879701896397 / 18014398509481984)" "5404319552844596"] by (simp add: powr_neg_numeral)
  have at1: "num_add (Finite (1)) (Finite (2)) = Finite (3)"
    using fl_eqI[of "1" "(1) + (2)" "6755399441055744"] by (simp add: powr_neg_numeral)
  have ar: "num_div (Finite (1351079888211149 / 4503599627370496)) (Finite (3)) = Finite (7205759403792795 / 72057594037927936)"
    using fl_eqI[of "- 4" "(1351079888211149 / 4503599627370496) / (3)" "7205759403792795"] by (simp add: powr_neg_numeral)
  show "fst (smoothSpeedD (fl 0.1) [fl 0.1]) = fl 0.10000000000000002"
    unfolding v b
    by (simp add: smoothSpeedD_def pushShift_def Let_def ap0 as0 at0 ap1 as1 at1 ar
        del: num_mul.simps num_add.simps num_div.simps)
  show "fl 0.1 = Finite (3602879701896397 / 36028797018963968)" by (rule v)
  show "fl 0.10000000000000002 = Finite (7205759403792795 / 72057594037927936)" by (rule b)
qed

lemma five_pushes_6711:
  "fst (smoothSpeedD (fl 67.11) [fl 67.11, fl 67.11, fl 67.11, fl 67.11]) = fl 67.10999999999999"
  "fl 67.11 = Finite (4722446421763031 / 70368744177664)"
  "fl 67.10999999999999 = Finite (2361223210881515 / 35184372088832)"
proof -
  have v: "fl 67.11 = Finite (4722446421763031 / 70368744177664)"
    using fl_eqI[of "6" "67.11" "4722446421763031"] by (simp add: powr_neg_numeral)
  have b: "fl 67.10999999999999 = Finite (2361223210881515 / 35184372088832)"
    using fl_eqI[of "6" "67.10999999999999" "4722446421763030"] by (simp add: powr_neg_numeral)
  have ap0: "num_mul (Finite (4722446421763031 / 70368744177664)) (Finite (1)) = Finite (4722446421763031 / 70368744177664)"
    using fl_eqI[of "6" "(4722446421763031 / 70368744177664) * (1)" "4722446421763031"] by (simp add: powr_neg_numeral)
  have as0: "num_add (Finite (0)) (Finite (4722446421763031 / 70368744177664)) = Finite (4722446421763031 / 70368744177664)"
    using fl_eqI[of "6" "(0) + (4722446421763031 / 70368744177664)" "4722446421763031"] by (simp add: powr_neg_numeral)
  have at0: "num_add (Finite (0)) (Finite (1)) = Finite (1)"
    using fl_eqI[of "0" "(0) + (1)" "4503599627370496"] by (simp add: powr_neg_numeral)
  have ap1: "num_mul (Finite (4722446421763031 / 70368744177664)) (Finite (2)) = Finite (4722446421763031 / 35184372088832)"
    using fl_eqI[of "7" "(4722446421763031 / 70368744177664) * (2)" "4722446421763031"] by (simp add: powr_neg_numeral)
  have as1: "num_add (Finite (4722446421763031 / 70368744177664)) (Finite (4722446421763031 / 35184372088832)) = Finite (3541834816322273 / 17592186044416)"
    using fl_eqI[of "7" "(4722446421763031 / 70368744177664) + (4722446421763031 / 35184372088832)" "7083669632644546"] by (simp add: powr_neg_numeral)
  have at1: "num_add (Finite (1)) (Finite (2)) = Finite (3)"
    using fl_eqI[of "1" "(1) + (2)" "6755399441055744"] by (simp add: powr_neg_numeral)
  have ap2: "num_mul (Finite (4722446421763031 / 70368744177664)) (Finite (3)) = Finite (3541834816322273 / 17592186044416)"
    using fl_eqI[of "7" "(4722446421763031 / 70368744177664) * (3)" "7083669632644546"] by (simp add: powr_neg_numeral)
  have as2: "num_add (Finite (3541834816322273 / 17592186044416)) (Finite (3541834816322273 / 17592186044416)) = Finite (3541834816322273 / 8796093022208)"
    using fl_eqI[of "8" "(3541834816322273 / 17592186044416) + (3541834816322273 / 17592186044416)" "7083669632644546"] by (simp add: powr_neg_numeral)
  have at2: "num_add (Finite (3)) (Finite (3)) = Finite (6)"
    using fl_eqI[of "2" "(3) + (3)" "6755399441055744"] by (simp add: powr_neg_numeral)
  have ap3: "num_mul (Finite (4722446421763031 / 70368744177664)) (Finite (4)) = Finite (4722446421763031 / 17592186044416)"
    using fl_eqI[of "8" "(4722446421763031 / 70368744177664) * (4)" "4722446421763031"] by (simp add: powr_neg_numeral)
  have as3: "num_add (Finite (3541834816322273 / 8796093022208)) (Finite (4722446421763031 / 17592186044416)) = Finite (1475764506800947 / 2199023255552)"
    using fl_eqI[of "9" "(3541834816322273 / 8796093022208) + (4722446421763031 / 17592186044416)" "5903058027203788"] by (simp add: powr_neg_numeral)
  have at3: "num_add (Finite (6)) (Finite (4)) = Finite (10)"
    using fl_eqI[of "3" "(6) + (4)" "5629499534213120"] by (simp add: powr_neg_numeral)
  have ap4: "num_mul (Finite (4722446421763031 / 70368744177664)) (Finite (5)) = Finite (5903058027203789 / 17592186044416)"
    using fl_eqI[of "8" "(4722446421763031 / 70368744177664) * (5)" "5903058027203789"] by (simp add: powr_neg_numeral)
  have as4: "num_add (Finite (1475764506800947 / 2199023255552)) (Finite (5903058027203789 / 17592186044416)) = Finite (4427293520402841 / 4398046511104)"
    using fl_eqI[of "9" "(1475764506800947 / 2199023255552) + (5903058027203789 / 17592186044416)" "8854587040805682"] by (simp add: powr_neg_numeral)
  have at4: "num_add (Finite (10)) (Finite (5)) = Finite (15)"
    using fl_eqI[of "3" "(10) + (5)" "8444249301319680"] by (simp add: powr_neg_numeral)
  have ar: "num_div (Finite (4427293520402841 / 4398046511104)) (Finite (15)) = Finite (2361223210881515 / 35184372088832)"
    using fl_eqI[of "6" "(4427293520402841 / 4398046511104) / (15)" "4722446421763030"] by (simp add: powr_neg_numeral)
  show "fst (smoothSpeedD (fl 67.11) [fl 67.11, fl 67.11, fl 67.11, fl 67.11]) = fl 67.10999999999999"
    unfolding v b
    by (simp add: smoothSpeedD_def pushShift_def Let_def ap0 as0 at0 ap1 as1 at1 ap2 as2 at2 ap3 as3 at3 ap4 as4 at4 ar
        del: num_add.simps(5) num_mul.simps(5) num_div.simps(5))
  show "fl 67.11 = Finite (4722446421763031 / 70368744177664)" by (rule v)
  show "fl 67.10999999999999 = Finite (2361223210881515 / 35184372088832)" by (rule b)
qed

lemma device_speed_10:
  "num_mul (Finite 10) (fl 2.237) = fl 22.37"
  "fst (smoothSpeedD (fl 22.37) []) = fl 22.37"
  "fl 22.37 = Finite (6296595229017375 / 281474976710656)"
proof -
  have k: "fl 2.237 = Finite (1259319045803475 / 562949953421312)"
    using fl_eqI[of "1" "2.237" "5037276183213900"] by (simp add: powr_neg_numeral)
  have v: "fl 22.37 = Finite (6296595229017375 / 281474976710656)"
    using fl_eqI[of "4" "22.37" "6296595229017375"] by (simp add: powr_neg_numeral)
  have m: "num_mul (Finite (10)) (Finite (1259319045803475 / 562949953421312)) = Finite (6296595229017375 / 281474976710656)"
    using fl_eqI[of "4" "(10) * (1259319045803475 / 562949953421312)" "6296595229017375"] by (simp add: powr_neg_numeral)
  have ap0: "num_mul (Finite (6296595229017375 / 281474976710656)) (Finite (1)) = Finite (6296595229017375 / 281474976710656)"
    using fl_eqI[of "4" "(6296595229017375 / 281474976710656) * (1)" "6296595229017375"] by (simp add: powr_neg_numeral)
  have as0: "num_add (Finite (0)) (Finite (6296595229017375 / 281474976710656)) = Finite (6296595229017375 / 281474976710656)"
    using fl_eqI[of "4" "(0) + (6296595229017375 / 281474976710656)" "6296595229017375"] by (simp add: powr_neg_numeral)
  have at0: "num_add (Finite (0)) (Finite (1)) = Finite (1)"
    using fl_eqI[of "0" "(0) + (1)" "4503599627370496"] by (simp add: powr_neg_numeral)
  have ar: "num_div (Finite (6296595229017375 / 281474976710656)) (Finite (1)) = Finite (6296595229017375 / 281474976710656)"
    using fl_eqI[of "4" "(6296595229017375 / 281474976710656) / (1)" "6296595229017375"] by (simp add: powr_neg_numeral)
  show "num_mul (Finite 10) (fl 2.237) = fl 22.37"
    unfolding k v by (rule m)
  show "fst (smoothSpeedD (fl 22.37) []) = fl 22.37"
    unfolding v
    by (simp add: smoothSpeedD_def pushShift_def Let_def ap0 as0 at0 ar
        del: num_add.simps(5) num_mul.simps(5) num_div.simps(5))
  show "fl 22.37 = Finite (6296595229017375 / 281474976710656)"
    by (rule v)
qed

lemma antipodes_nan:
  "calculateSpeedD replayed (currentPosition antipode_first) (currentPosition antipode_second) = NaN"
proof -
  have h0: "num_mul (Finite (8)) (Finite (884279719003555 / 281474976710656)) = Finite (884279719003555 / 35184372088832)"
    using fl_eqI[of "4" "(8) * (884279719003555 / 281474976710656)" "7074237752028440"] by (simp add: powr_neg_numeral)
  have h1: "num_div (Finite (884279719003555 / 35184372088832)) (Finite (180)) = Finite (5030569068109113 / 36028797018963968)"
    using fl_eqI[of "- 3" "(884279719003555 / 35184372088832) / (180)" "5030569068109113"] by (simp add: powr_neg_numeral)
  have h2: "num_mul (Finite (- 8)) (Finite (884279719003555 / 281474976710656)) = Finite (- (884279719003555 / 35184372088832))"
    using fl_eqI[of "4" "(- 8) * (884279719003555 / 281474976710656)" "- 7074237752028440"] by (simp add: powr_neg_numeral)
  have h3: "num_div (Finite (- (884279719003555 / 35184372088832))) (Finite (180)) = Finite (- (5030569068109113 / 36028797018963968))"
    using fl_eqI[of "- 3" "(- (884279719003555 / 35184372088832)) / (180)" "- 5030569068109113"] by (simp add: powr_neg_numeral)
  have h4: "num_add (Finite (- 8)) (Finite (- 8)) = Finite (- 16)"
    using fl_eqI[of "4" "(- 8) + (- 8)" "- 4503599627370496"] by (simp add: powr_neg_numeral)
  have h5: "num_mul (Finite (- 16)) (Finite (884279719003555 / 281474976710656)) = Finite (- (884279719003555 / 17592186044416))"
    using fl_eqI[of "5" "(- 16) * (884279719003555 / 281474976710656)" "- 7074237752028440"] by (simp add: powr_neg_numeral)
  have h6: "num_div (Finite (- (884279719003555 / 17592186044416))) (Finite (180)) = Finite (- (5030569068109113 / 18014398509481984))"
    using fl_eqI[of "- 2" "(- (884279719003555 / 17592186044416)) / (180)" "- 5030569068109113"] by (simp add: powr_neg_numeral)
  have h7: "num_add (Finite (180)) (Finite (0)) = Finite (180)"
    using fl_eqI[of "7" "(180) + (0)" "6333186975989760"] by (simp add: powr_neg_numeral)
  have h8: "num_mul (Finite (180)) (Finite (884279719003555 / 281474976710656)) = Finite (4974073419394997 / 8796093022208)"
    using fl_eqI[of "9" "(180) * (884279719003555 / 281474976710656)" "4974073419394997"] by (simp add: powr_neg_numeral)
  have h9: "num_div (Finite (4974073419394997 / 8796093022208)) (Finite (180)) = Finite (884279719003555 / 281474976710656)"
    using fl_eqI[of "1" "(4974073419394997 / 8796093022208) / (180)" "7074237752028440"] by (simp add: powr_neg_numeral)
  have h10: "num_div (Finite (- (5030569068109113 / 18014398509481984))) (Finite (2)) = Finite (- (5030569068109113 / 36028797018963968))"
    using fl_eqI[of "- 3" "(- (5030569068109113 / 18014398509481984)) / (2)" "- 5030569068109113"] by (simp add: powr_neg_numeral)
  have h11: "num_div (Finite (884279719003555 / 281474976710656)) (Finite (2)) = Finite (884279719003555 / 562949953421312)"
    using fl_eqI[of "0" "(884279719003555 / 281474976710656) / (2)" "7074237752028440"] by (simp add: powr_neg_numeral)
  have h12: "num_mul (Finite (- (5014239404989977 / 36028797018963968))) (Finite (- (5014239404989977 / 36028797018963968))) = Finite (1395694493897217 / 72057594037927936)"
    using fl_eqI[of "- 6" "(- (5014239404989977 / 36028797018963968)) * (- (5014239404989977 / 36028797018963968))" "5582777975588868"] by (simp add: powr_neg_numeral)
  have h13: "num_mul (Finite (4459770905381437 / 4503599627370496)) (Finite (4459770905381437 / 4503599627370496)) = Finite (8832737443003841 / 9007199254740992)"
    using fl_eqI[of "- 1" "(4459770905381437 / 4503599627370496) * (4459770905381437 / 4503599627370496)" "8832737443003841"] by (simp add: powr_neg_numeral)
  have h14: "num_mul (Finite (8832737443003841 / 9007199254740992)) (Finite (1)) = Finite (8832737443003841 / 9007199254740992)"
    using fl_eqI[of "- 1" "(8832737443003841 / 9007199254740992) * (1)" "8832737443003841"] by (simp add: powr_neg_numeral)
  have h16: "num_add (Finite (1395694493897217 / 72057594037927936)) (Finite (8832737443003841 / 9007199254740992)) = Finite (4503599627370497 / 4503599627370496)"
    using fl_eqI[of "0" "(1395694493897217 / 72057594037927936) + (8832737443003841 / 9007199254740992)" "4503599627370497"] by (simp add: powr_neg_numeral)
  have h17: "num_add (Finite (1)) (Finite (- (4503599627370497 / 4503599627370496))) = Finite (- (1 / 4503599627370496))"
    using fl_eqI[of "- 52" "(1) + (- (4503599627370497 / 4503599627370496))" "- 4503599627370496"] by (simp add: powr_neg_numeral)
  have h18: "num_add (Finite (1000)) (Finite (0)) = Finite (1000)"
    using fl_eqI[of "9" "(1000) + (0)" "8796093022208000"] by (simp add: powr_neg_numeral)
  have h19: "num_div (Finite (1000)) (Finite (1000)) = Finite (1)"
    using fl_eqI[of "0" "(1000) / (1000)" "4503599627370496"] by (simp add: powr_neg_numeral)
  show ?thesis
    by (simp add: calculateSpeedD_def Let_def Math_PI_def num_sub_def Math_sinD_def Math_cosD_def
        Math_atan2D_def Math_sqrtD_def replayed_def currentPosition_def antipode_first_def
        antipode_second_def h0 h1 h2 h3 h4 h5 h6 h7 h8 h9 h10 h11 h12 h13 h14 h16 h17 h18 h19
        del: num_add.simps(5) num_mul.simps(5) num_div.simps(5))
qed

lemma rawSampleD_cases:
  "rawSampleD M l p = NaN \<longleftrightarrow> currentSpeedD M l p = NaN"
  "rawSampleD M l p = NaN \<or> nonnegative (rawSampleD M l p)"
  by (cases "currentSpeedD M l p"; simp add: rawSampleD_def)+

lemma currentSpeedD_priority:
  "(coords_speed p = Some v \<and> 0 \<le> v \<longrightarrow> currentSpeedD M l p = num_mul (Finite v) (fl 2.237)) \<and>
   ((coords_speed p = None \<or> (coords_speed p = Some v \<and> v < 0)) \<and> l = Some q \<longrightarrow>
      currentSpeedD M l p = calculateSpeedD M q (currentPosition p)) \<and>
   ((coords_speed p = None \<or> (coords_speed p = Some v \<and> v < 0)) \<and> l = None \<longrightarrow>
      currentSpeedD M l p = Finite 0)"
  by (auto simp: currentSpeedD_def positionDerivedD_def)

lemma Math_max_not_less:
  "Math_max a b \<noteq> NaN \<Longrightarrow> \<not> num_less (Math_max a b) a"
  by (cases a; cases b) simp_all

lemma maxSpeedD_stays_nan:
  "maxSpeedD t = NaN \<Longrightarrow> maxSpeedD (watchSuccessD M p t) = NaN"
  by (simp add: watchSuccessD_def Let_def split: prod.splits)

lemma first_fix:
  "watchSuccessD replayed antipode_first started =
     \<lparr>speedD = fl 22.37, maxSpeedD = fl 22.37,
      lastPositionD = Some (currentPosition antipode_first), speedHistoryD = [fl 22.37]\<rparr>"
proof -
  note v = device_speed_10(3)
  have r: "rawSampleD replayed None antipode_first = fl 22.37"
    using device_speed_10(1) v
    by (simp add: rawSampleD_def currentSpeedD_def antipode_first_def)
  have s: "smoothSpeedD (fl 22.37) [] = (fl 22.37, [fl 22.37])"
    using device_speed_10(2) snd_smoothD[of "fl 22.37" "[]"]
    by (simp add: prod_eq_iff pushShift_def)
  have m: "Math_max (Finite 0) (fl 22.37) = fl 22.37"
    unfolding v by simp
  have "watchSuccessD replayed antipode_first started =
      (case smoothSpeedD (fl 22.37) [] of
         (smoothedSpeed, history) \<Rightarrow>
           \<lparr>speedD = smoothedSpeed, maxSpeedD = Math_max (Finite 0) smoothedSpeed,
            lastPositionD = Some (currentPosition antipode_first), speedHistoryD = history\<rparr>)"
    unfolding watchSuccessD_def started_def by (simp add: r Let_def split: prod.splits)
  also have "\<dots> = \<lparr>speedD = fl 22.37, maxSpeedD = fl 22.37,
      lastPositionD = Some (currentPosition antipode_first), speedHistoryD = [fl 22.37]\<rparr>"
    unfolding s by (simp only: prod.case m)
  finally show ?thesis .
qed

lemma second_fix_sample:
  "currentSpeedD replayed (Some (currentPosition antipode_first)) antipode_second = NaN"
  "rawSampleD replayed (Some (currentPosition antipode_first)) antipode_second = NaN"
proof -
  show c: "currentSpeedD replayed (Some (currentPosition antipode_first)) antipode_second = NaN"
    using antipodes_nan by (simp add: currentSpeedD_def positionDerivedD_def antipode_second_def)
  show "rawSampleD replayed (Some (currentPosition antipode_first)) antipode_second = NaN"
    by (simp add: rawSampleD_def c)
qed

lemma second_fix:
  "watchSuccessD replayed antipode_second (watchSuccessD replayed antipode_first started) =
     \<lparr>speedD = NaN, maxSpeedD = NaN,
      lastPositionD = Some (currentPosition antipode_second), speedHistoryD = [fl 22.37, NaN]\<rparr>"
  unfolding first_fix
  by (simp add: watchSuccessD_def second_fix_sample smoothSpeedD_def pushShift_def Let_def
      split: prod.splits)

lemma third_fix:
  "maxSpeedD (watchSuccessD replayed antipode_third
       (watchSuccessD replayed antipode_second (watchSuccessD replayed antipode_first started))) = NaN"
  by (rule maxSpeedD_stays_nan) (simp add: second_fix)

section \<open>The claims\<close>

subsection \<open>C1: calculateSpeed\<close>



subsection \<open>C2: the priority of the speed sources\<close>

text \<open>
  Claim C2, at an input where the code departs from it. The previous fix is at
  latitude 8, longitude 0; the current one, a second later, is at its antipode and
  reports no speed. In doubles the haversine term is \<open>1 + 2\<^sup>-\<^sup>5\<^sup>2\<close>, so
  \<^verbatim>\<open>Math.sqrt(1 - a)\<close> is NaN and \<^verbatim>\<open>calculateSpeed\<close> returns NaN;
  \<^verbatim>\<open>Math.max(0, NaN)\<close> is NaN, and the sample that enters the window is NaN, not a
  number from 0 on.
\<close>

theorem estimator_feeds_nan:
  "calculateSpeedD replayed (currentPosition antipode_first) (currentPosition antipode_second) = NaN \<and>
   rawSampleD replayed (Some (currentPosition antipode_first)) antipode_second = NaN \<and>
   \<not> nonnegative (rawSampleD replayed (Some (currentPosition antipode_first)) antipode_second) \<and>
   speedHistoryD (watchSuccessD replayed antipode_second
                    (watchSuccessD replayed antipode_first started)) = [fl 22.37, NaN]"
  using antipodes_nan second_fix_sample(2) second_fix by simp

subsection \<open>C3: the weighted average\<close>

text \<open>
  Claim C3, amended. \<^verbatim>\<open>smoothSpeed\<close> returns the weighted average of the window
  after the push, the entry at index \<open>i\<close> (oldest first) weighing \<open>i + 1\<close>, as the
  doubles compute it: the products, the two sums in the order of the indices and the
  quotient are each rounded. When \<open>v\<close> has been pushed at least four times in a row
  into a window of at most 5 entries, the next push of \<open>v\<close> (the fifth or a later one)
  leaves five copies of \<open>v\<close> in the window; for \<open>v\<close> equal to 0 or between
  \<open>2\<^sup>-\<^sup>1\<^sup>0\<^sup>0\<^sup>0\<close> and \<open>2\<^sup>1\<^sup>0\<^sup>0\<^sup>0\<close> it returns a number within the relative error
  \<open>2\<^sup>-\<^sup>5\<^sup>0\<close> of \<open>v\<close> (0 for 0).
\<close>

theorem smoothSpeedD_weighted_average:
  "fst (smoothSpeedD v h) = weighted_averageD (snd (smoothSpeedD v h)) \<and>
   snd (smoothSpeedD v h) = pushShift v h \<and>
   (length h \<le> 5 \<and> 4 \<le> n \<longrightarrow>
      snd (smoothSpeedD v (pushesD (replicate n v) h)) = replicate 5 v) \<and>
   (length h \<le> 5 \<and> 4 \<le> n \<and> (x = 0 \<or> 2 powr (- 1000) \<le> x) \<and> x \<le> 2 powr 1000 \<longrightarrow>
      (\<exists>r. fst (smoothSpeedD (Finite x) (pushesD (replicate n (Finite x)) h)) = Finite r \<and>
           x * (1 - 1 / 2 ^ 50) \<le> r \<and> r \<le> x * (1 + 1 / 2 ^ 50)))"
proof -
  have a: "fst (smoothSpeedD v h) = weighted_averageD (snd (smoothSpeedD v h))"
    by (simp add: smoothD_eq snd_smoothD)
  have b: "snd (smoothSpeedD v h) = pushShift v h"
    by (rule snd_smoothD)
  have c: "snd (smoothSpeedD v (pushesD (replicate n v) h)) = replicate 5 v"
    if "length h \<le> 5 \<and> 4 \<le> n" for v :: number
    using that by (simp add: snd_smoothD pushesD_constant)
  have d: "\<exists>r. fst (smoothSpeedD (Finite x) (pushesD (replicate n (Finite x)) h)) = Finite r \<and>
           x * (1 - 1 / 2 ^ 50) \<le> r \<and> r \<le> x * (1 + 1 / 2 ^ 50)"
    if h: "length h \<le> 5 \<and> 4 \<le> n \<and> (x = 0 \<or> 2 powr (- 1000) \<le> x) \<and> x \<le> 2 powr 1000"
  proof -
    let ?w = "pushesD (replicate n (Finite x)) h"
    have x0: "0 \<le> x" using h good_nonneg[of x "- 1000"] by blast
    have w: "pushShift (Finite x) ?w = replicate 5 (Finite x)"
      using h by (simp add: pushesD_constant)
    have "\<forall>y \<in> set (pushShift (Finite x) ?w).
            \<exists>r. y = Finite r \<and> x \<le> r \<and> r \<le> x \<and> (r = 0 \<or> 2 powr (- 1000) \<le> r)"
      unfolding w using h by simp
    then show ?thesis
      using h x0 by (intro smoothSpeedD_bounds length_pushesD) auto
  qed
  from a b c d show ?thesis by blast
qed

theorem smoothSpeedD_weighted_average_witness:
  "fst (smoothSpeedD (Finite 3) [Finite 1, Finite 2])
     = weighted_averageD [Finite 1, Finite 2, Finite 3] \<and>
   snd (smoothSpeedD (Finite 3) (pushesD (replicate 4 (Finite 3)) [Finite 1, Finite 2]))
     = replicate 5 (Finite 3) \<and>
   (\<exists>r. fst (smoothSpeedD (Finite 3) (pushesD (replicate 4 (Finite 3)) [Finite 1, Finite 2]))
           = Finite r \<and>
        3 * (1 - 1 / 2 ^ 50) \<le> r \<and> r \<le> 3 * (1 + 1 / 2 ^ 50))"
proof -
  have "(3::real) = 0 \<or> 2 powr (- 1000) \<le> (3::real)" "(3::real) \<le> 2 powr 1000"
    by (simp_all add: powr_neg_numeral)
  then show ?thesis
    using smoothSpeedD_weighted_average [of "Finite 3" "[Finite 1, Finite 2]" 4 3]
    by (simp add: pushShift_def)
qed

text \<open>
  The claim as it was stated fails: the fifth push of 67.11 in a row returns
  67.10999999999999, a smaller double.
\<close>

theorem constant_pushes_round:
  "fst (smoothSpeedD (fl 67.11) (pushesD (replicate 4 (fl 67.11)) [])) = fl 67.10999999999999 \<and>
   fl 67.10999999999999 \<noteq> fl 67.11 \<and>
   num_less (fl 67.10999999999999) (fl 67.11)"
proof -
  have "pushesD (replicate 4 (fl 67.11)) [] = [fl 67.11, fl 67.11, fl 67.11, fl 67.11]"
    using pushesD_drop[of "[]" "replicate 4 (fl 67.11)"] by (simp add: eval_nat_numeral)
  then show ?thesis
    using five_pushes_6711 by simp
qed

subsection \<open>C4: the window holds at most 5 entries\<close>

text \<open>
  Claim C4. Whatever is pushed from the empty window, the window is the last 5 of the
  pushed samples in their order, so it never has more than 5 entries; a push keeps
  the bound; a push into a window of 5 evicts the oldest entry and appends the new
  one; and in every state the component can reach the window has at most 5 entries.
\<close>

theorem window_bounded:
  "length (pushes vs []) \<le> 5 \<and>
   pushes vs [] = drop (length vs - 5) vs \<and>
   (length h \<le> 5 \<longrightarrow> length (snd (smoothSpeed v h)) \<le> 5) \<and>
   (length h = 5 \<longrightarrow> snd (smoothSpeed v h) = tl h @ [v]) \<and>
   (reachable s \<longrightarrow> length (speedHistoryRef s) \<le> 5)"
proof (intro conjI impI)
  show eq: "pushes vs [] = drop (length vs - 5) vs"
    using pushes_drop[of "[]" vs] by simp
  show "length (pushes vs []) \<le> 5"
    unfolding eq by simp
  show "length (snd (smoothSpeed v h)) \<le> 5" if "length h \<le> 5"
    using that by (simp add: snd_smooth pushShift_drop)
  show "snd (smoothSpeed v h) = tl h @ [v]" if "length h = 5"
    using that by (cases h) (auto simp: snd_smooth pushShift_def Let_def)
  show "length (speedHistoryRef s) \<le> 5" if "reachable s"
    using reachable_invariant[OF that] by (simp add: session_invariant_def)
qed

theorem window_bounded_witness:
  "length [1, 2, 3, 4, 5 :: real] = 5 \<and>
   snd (smoothSpeed 6 [1, 2, 3, 4, 5]) = [2, 3, 4, 5, 6] \<and>
   length (snd (smoothSpeed 6 [1, 2, 3, 4, 5])) \<le> 5 \<and>
   reachable (run failure_session initial) \<and>
   length (speedHistoryRef (run failure_session initial)) \<le> 5"
proof -
  have r: "reachable (run failure_session initial)"
    by (intro reachable_run reachable_initial)
  show ?thesis
    using window_bounded [of "[]" "[1, 2, 3, 4, 5]" 6 "run failure_session initial"] r
    by simp
qed

subsection \<open>C5: maxSpeed\<close>

text \<open>
  Claim C5, at an input where the code departs from it. After a first fix with a
  reported speed of 10 m/s, \<^verbatim>\<open>maxSpeed\<close> is 22.37. The second fix, at the antipode
  and without a reported speed, gives the sample NaN (see C2), the smoothed speed is
  NaN and \<^verbatim>\<open>Math.max(prev, NaN)\<close> is NaN: \<^verbatim>\<open>maxSpeed\<close> goes from 22.37 to NaN. It
  stays NaN at the third fix, which reports a speed again.
\<close>

theorem maxSpeed_lost_to_nan:
  "maxSpeedD (watchSuccessD replayed antipode_first started) = fl 22.37 \<and>
   maxSpeedD (watchSuccessD replayed antipode_second
                (watchSuccessD replayed antipode_first started)) = NaN \<and>
   maxSpeedD (watchSuccessD replayed antipode_third
                (watchSuccessD replayed antipode_second
                   (watchSuccessD replayed antipode_first started))) = NaN"
  using first_fix second_fix third_fix by simp

subsection \<open>C6: starting a recording while tracking is off\<close>

text \<open>
  Claim C6. \<^verbatim>\<open>startRecording\<close> is called from one place, the Start Recording button,
  which is disabled while \<^verbatim>\<open>isTracking\<close> is false: a click while tracking is off runs
  no handler, makes no transition and leaves \<^verbatim>\<open>recordedChunks\<close> as it is. The function
  returns without effect when there is no stream or no canvas, and it never changes
  \<^verbatim>\<open>recordedChunks\<close>. The only event that turns \<^verbatim>\<open>isRecording\<close> on is a click on Start
  Recording in the camera view, with a stream and with tracking on, and in every
  reachable state a recording implies tracking and the camera view.
\<close>

theorem startRecording_gate:
  "(\<not> isTracking s \<longrightarrow> dispatch Click_StartRecording s = s) \<and>
   (streamRef s = None \<or> \<not> isCameraActive s \<longrightarrow> startRecording s = s) \<and>
   recordedChunks (startRecording s) = recordedChunks s \<and>
   (\<not> isRecording s \<and> isRecording (dispatch e s) \<longrightarrow>
      e = Click_StartRecording \<and> isCameraActive s \<and> isTracking s \<and> streamRef s \<noteq> None) \<and>
   (reachable s \<and> isRecording s \<longrightarrow> isTracking s \<and> isCameraActive s)"
proof -
  have a: "dispatch Click_StartRecording s = s" if "\<not> isTracking s"
    using that by (simp add: dispatch_def)
  have b: "startRecording s = s" if "streamRef s = None \<or> \<not> isCameraActive s"
    using that by (auto simp: startRecording_def canvasRef_def split: option.splits)
  have c: "recordedChunks (startRecording s) = recordedChunks s"
    by (simp add: startRecording_def Let_def split: option.splits)
  have d: "isTracking s \<and> isCameraActive s" if "reachable s \<and> isRecording s"
    using that reachable_invariant[of s] unfolding session_invariant_def by blast
  from a b c d enter_recording[of s e] show ?thesis by blast
qed

theorem startRecording_gate_witness:
  "\<not> isTracking (run idle_camera_session initial) \<and>
   dispatch Click_StartRecording (run idle_camera_session initial)
     = run idle_camera_session initial \<and>
   streamRef initial = None \<and> startRecording initial = initial \<and>
   \<not> isRecording (run camera_session initial) \<and>
   isRecording (dispatch Click_StartRecording (run camera_session initial)) \<and>
   isTracking (run camera_session initial) \<and>
   reachable (run recording_session initial) \<and>
   isRecording (run recording_session initial) \<and>
   isTracking (run recording_session initial)"
proof -
  have i: "streamRef initial = None" by (simp add: initial_def)
  have r: "reachable (run recording_session initial)"
    by (intro reachable_run reachable_initial)
  have d: "isRecording (dispatch Click_StartRecording (run camera_session initial))"
    using camera_run by (simp add: dispatch_def startRecording_def canvasRef_def Let_def)
  show ?thesis
    using startRecording_gate [of "run idle_camera_session initial" Click_StartRecording]
          startRecording_gate [of initial Click_StartRecording]
          startRecording_gate [of "run camera_session initial" Click_StartRecording]
          startRecording_gate [of "run recording_session initial" Click_StartRecording]
          idle_camera_run camera_run recording_run i r d
    by simp
qed

subsection \<open>C7: a failure of the position source\<close>

text \<open>
  Claim C7, amended. The error handler sets \<^verbatim>\<open>isConnected\<close> to false and the error
  to the message of the failure's class (permission denied, position unavailable,
  timeout, and unknown for any other code); it leaves \<^verbatim>\<open>isTracking\<close>, the
  subscription and the log of calls as they are. A later successful fix sets
  \<^verbatim>\<open>isConnected\<close> to true and leaves the error as it is. \<^verbatim>\<open>startTracking\<close> with a
  position source clears the error, and no other handler does: an error that is gone
  after a handler has run was cleared by \<^verbatim>\<open>startTracking\<close>.
\<close>

theorem source_failure_handler:
  "\<not> isConnected (watchError code s) \<and>
   error (watchError code s) = Some (errorMessage code) \<and>
   errorMessage PERMISSION_DENIED
     = ''Location access denied. Please enable location permissions.'' \<and>
   errorMessage POSITION_UNAVAILABLE = ''Location information unavailable.'' \<and>
   errorMessage TIMEOUT = ''Location request timed out.'' \<and>
   (code \<notin> {PERMISSION_DENIED, POSITION_UNAVAILABLE, TIMEOUT} \<longrightarrow>
      errorMessage code = ''An unknown error occurred.'') \<and>
   isTracking (watchError code s) = isTracking s \<and>
   watchIdRef (watchError code s) = watchIdRef s \<and>
   calls (watchError code s) = calls s \<and>
   isConnected (watchSuccess p s) \<and>
   error (watchSuccess p s) = error s \<and>
   error (startTracking (Some w) s) = None \<and>
   (error s \<noteq> None \<and> error (handler e s) = None \<longrightarrow> (\<exists>w. e = Click_StartTracking (Some w)))"
proof -
  have "error s \<noteq> None \<and> error (handler e s) = None \<longrightarrow> (\<exists>w. e = Click_StartTracking (Some w))"
    using error_cleared_only_by_start[of s e] by blast
  then show ?thesis
    by (simp add: watchError_def watchSuccess_def errorMessage_def PERMISSION_DENIED_def
        POSITION_UNAVAILABLE_def TIMEOUT_def startTracking_def Let_def split: prod.splits)
qed

theorem source_failure_handler_witness:
  "isTracking (run [Click_StartTracking (Some 1), Watch_Success 1 fix_device] initial) \<and>
   7 \<notin> {PERMISSION_DENIED, POSITION_UNAVAILABLE, TIMEOUT} \<and>
   error (watchError 7 (run [Click_StartTracking (Some 1), Watch_Success 1 fix_device] initial))
     = Some ''An unknown error occurred.'' \<and>
   isTracking (watchError 7 (run [Click_StartTracking (Some 1), Watch_Success 1 fix_device] initial)) \<and>
   error (run stopped_session initial) \<noteq> None \<and>
   error (handler (Click_StartTracking (Some 2)) (run stopped_session initial)) = None"
proof -
  let ?s = "run [Click_StartTracking (Some 1), Watch_Success 1 fix_device] initial"
  have c: "7 \<notin> {PERMISSION_DENIED, POSITION_UNAVAILABLE, TIMEOUT}"
    by (simp add: PERMISSION_DENIED_def POSITION_UNAVAILABLE_def TIMEOUT_def)
  have n: "error (handler (Click_StartTracking (Some 2)) (run stopped_session initial)) = None"
    by (simp add: startTracking_def)
  from source_failure_handler [of 7 ?s fix_plain 2 "Click_StartTracking (Some 2)"]
    source_failure_handler [of 7 "run stopped_session initial" fix_plain 2
      "Click_StartTracking (Some 2)"]
  show ?thesis
    using c n tracking_run stopped_run by simp
qed

text \<open>
  The claim as it was stated fails in its last part: after a timeout and a successful
  fix, the component is tracking and connected and still shows the timeout.
\<close>

theorem error_survives_fix:
  "isTracking (run failure_session initial) \<and>
   isConnected (run failure_session initial) \<and>
   error (run failure_session initial) = Some ''Location request timed out.''"
  by (simp add: failure_session_def run_defs handler_defs sample_defs Let_def)

subsection \<open>C8: stopCamera during a recording\<close>




subsection \<open>C9: stopTracking\<close>

text \<open>
  Claim C9. \<^const>\<open>stopTracking\<close> clears the subscription held (after it the
  subscription is not live and \<^verbatim>\<open>watchIdRef\<close> is null), sets \<^verbatim>\<open>isTracking\<close> and
  \<^verbatim>\<open>isConnected\<close> to false and the speed to 0, and leaves \<^verbatim>\<open>maxSpeed\<close>, the accuracy
  and the heading as they are. In a reachable state with tracking off it changes
  nothing at all.
\<close>

theorem stopTracking_frame:
  "watchIdRef (stopTracking s) = None \<and>
   (watchIdRef s = Some w \<longrightarrow>
      calls (stopTracking s) = calls s @ [ClearWatch w] \<and>
      \<not> watchLive w (rev (calls (stopTracking s)))) \<and>
   \<not> isTracking (stopTracking s) \<and>
   \<not> isConnected (stopTracking s) \<and>
   speed (stopTracking s) = 0 \<and>
   maxSpeed (stopTracking s) = maxSpeed s \<and>
   accuracy (stopTracking s) = accuracy s \<and>
   heading (stopTracking s) = heading s \<and>
   (reachable s \<and> \<not> isTracking s \<longrightarrow> stopTracking s = s)"
  using stopTracking_idle[of s]
  by (auto simp: stopTracking_def Let_def split: option.splits)

theorem stopTracking_frame_witness:
  "watchIdRef (run failure_session initial) = Some 1 \<and>
   calls (stopTracking (run failure_session initial)) = [WatchPosition 1, ClearWatch 1] \<and>
   reachable (run stopped_session initial) \<and>
   \<not> isTracking (run stopped_session initial) \<and>
   stopTracking (run stopped_session initial) = run stopped_session initial"
proof -
  have w: "watchIdRef (run failure_session initial) = Some 1"
    and c: "calls (run failure_session initial) = [WatchPosition 1]"
    by (simp_all add: failure_session_def run_defs handler_defs sample_defs Let_def)
  have r: "reachable (run stopped_session initial)"
    by (intro reachable_run reachable_initial)
  have i: "\<not> isTracking (run stopped_session initial)"
    by (simp add: stopped_session_def run_defs handler_defs sample_defs Let_def)
  show ?thesis
    using stopTracking_frame [of "run failure_session initial" 1]
          stopTracking_frame [of "run stopped_session initial" 1] w c r i
    by simp
qed

subsection \<open>C10: the division of smoothSpeed\<close>

text \<open>
  Claim C10, amended. After the push the window is not empty. With at most 5 entries
  before the call, the total weight is an integer from 1 to 15, computed without
  rounding, so the division is not by zero; the value returned is not negative when no
  entry of the window is; and when every entry is a number between \<open>lo\<close> and \<open>hi\<close>
  that is 0 or between \<open>2\<^sup>-\<^sup>1\<^sup>0\<^sup>0\<^sup>0\<close> and \<open>2\<^sup>1\<^sup>0\<^sup>0\<^sup>0\<close>, the value returned lies between
  \<open>lo * (1 - 2\<^sup>-\<^sup>5\<^sup>0)\<close> and \<open>hi * (1 + 2\<^sup>-\<^sup>5\<^sup>0)\<close>.
\<close>

theorem smoothSpeedD_between:
  "snd (smoothSpeedD v h) \<noteq> [] \<and>
   (length h \<le> 5 \<longrightarrow>
      (\<exists>W. snd (weighD (snd (smoothSpeedD v h)) 0 (Finite 0, Finite 0)) = Finite (real W)
           \<and> 1 \<le> W \<and> W \<le> 15)) \<and>
   (length h \<le> 5 \<and> (\<forall>x \<in> set (snd (smoothSpeedD v h)). nonnegative x) \<longrightarrow>
      nonnegative (fst (smoothSpeedD v h))) \<and>
   (length h \<le> 5 \<and> 0 \<le> lo \<and> lo \<le> hi \<and> hi \<le> 2 powr 1000 \<and>
    (\<forall>x \<in> set (snd (smoothSpeedD v h)).
        \<exists>r. x = Finite r \<and> lo \<le> r \<and> r \<le> hi \<and> (r = 0 \<or> 2 powr (- 1000) \<le> r)) \<longrightarrow>
      (\<exists>r. fst (smoothSpeedD v h) = Finite r \<and>
           lo * (1 - 1 / 2 ^ 50) \<le> r \<and> r \<le> hi * (1 + 1 / 2 ^ 50)))"
proof -
  have a: "snd (smoothSpeedD v h) \<noteq> []"
    by (simp add: snd_smoothD pushShift_nonempty)
  have b: "\<exists>W. snd (weighD (snd (smoothSpeedD v h)) 0 (Finite 0, Finite 0)) = Finite (real W)
           \<and> 1 \<le> W \<and> W \<le> 15" if "length h \<le> 5"
    unfolding snd_smoothD using that by (rule totalWeight_exact)
  have c: "nonnegative (fst (smoothSpeedD v h))"
    if "length h \<le> 5 \<and> (\<forall>x \<in> set (snd (smoothSpeedD v h)). nonnegative x)"
    using that by (intro smoothSpeedD_nonnegative) (simp_all add: snd_smoothD)
  have d: "\<exists>r. fst (smoothSpeedD v h) = Finite r \<and>
           lo * (1 - 1 / 2 ^ 50) \<le> r \<and> r \<le> hi * (1 + 1 / 2 ^ 50)"
    if "length h \<le> 5 \<and> 0 \<le> lo \<and> lo \<le> hi \<and> hi \<le> 2 powr 1000 \<and>
        (\<forall>x \<in> set (snd (smoothSpeedD v h)).
            \<exists>r. x = Finite r \<and> lo \<le> r \<and> r \<le> hi \<and> (r = 0 \<or> 2 powr (- 1000) \<le> r))"
    using that by (intro smoothSpeedD_bounds) (simp_all add: snd_smoothD)
  from a b c d show ?thesis by blast
qed

theorem smoothSpeedD_between_witness:
  "snd (smoothSpeedD (Finite 6) [Finite 1, Finite 2, Finite 3, Finite 4, Finite 5])
     = [Finite 2, Finite 3, Finite 4, Finite 5, Finite 6] \<and>
   nonnegative (fst (smoothSpeedD (Finite 6) [Finite 1, Finite 2, Finite 3, Finite 4, Finite 5])) \<and>
   (\<exists>W. snd (weighD [Finite 2, Finite 3, Finite 4, Finite 5, Finite 6] 0 (Finite 0, Finite 0))
          = Finite (real W) \<and> 1 \<le> W \<and> W \<le> 15) \<and>
   (\<exists>r. fst (smoothSpeedD (Finite 6) [Finite 1, Finite 2, Finite 3, Finite 4, Finite 5]) = Finite r \<and>
        2 * (1 - 1 / 2 ^ 50) \<le> r \<and> r \<le> 6 * (1 + 1 / 2 ^ 50))"
proof -
  let ?h = "[Finite 1, Finite 2, Finite 3, Finite 4, Finite 5]"
  have w: "snd (smoothSpeedD (Finite 6) ?h) = [Finite 2, Finite 3, Finite 4, Finite 5, Finite 6]"
    by (simp add: snd_smoothD pushShift_def)
  have n: "\<forall>x \<in> set [Finite 2, Finite 3, Finite 4, Finite 5, Finite 6]. nonnegative x"
    by simp
  have r: "(2::real) \<le> 6" "(6::real) \<le> 2 powr 1000"
    "\<forall>x \<in> set [Finite 2, Finite 3, Finite 4, Finite 5, Finite 6].
       \<exists>r. x = Finite r \<and> 2 \<le> r \<and> r \<le> 6 \<and> (r = 0 \<or> 2 powr (- 1000) \<le> r)"
    by (simp_all add: powr_neg_numeral)
  from smoothSpeedD_between [of "Finite 6" ?h 2 6] n r show ?thesis
    unfolding w by simp
qed

text \<open>
  The claim as it was stated fails: with 0.1 in the window, pushing 0.1 returns
  0.10000000000000002, which is above every entry of the window.
\<close>

theorem average_above_maximum:
  "snd (smoothSpeedD (fl 0.1) [fl 0.1]) = [fl 0.1, fl 0.1] \<and>
   fst (smoothSpeedD (fl 0.1) [fl 0.1]) = fl 0.10000000000000002 \<and>
   num_less (fl 0.1) (fst (smoothSpeedD (fl 0.1) [fl 0.1]))"
proof -
  have "num_less (fl 0.1) (fl 0.10000000000000002)"
    using tenth_pushed_twice(2,3) by simp
  then show ?thesis
    using tenth_pushed_twice(1) by (simp add: snd_smoothD pushShift_def)
qed

end
